theory Spec2Isabelle
  imports Complex_Main
begin

section \<open>Floating-point values\<close>

text \<open>
  A float of the program is either one of the IEEE special values or a finite number,
  carried as the real it denotes. Comparisons follow IEEE 754 as Python and NumPy
  implement them: every ordered comparison with a NaN operand is false.
\<close>

datatype pyfloat = NaN | NegInf | Fin real | PosInf

datatype error = IndexError | OverflowError | ValueError | ZeroDivisionError

fun flt_less :: "pyfloat \<Rightarrow> pyfloat \<Rightarrow> bool" where
  "flt_less NaN b = False"
| "flt_less a NaN = False"
| "flt_less PosInf b = False"
| "flt_less a NegInf = False"
| "flt_less NegInf b = True"
| "flt_less a PosInf = True"
| "flt_less (Fin a) (Fin b) = (a < b)"

fun flt_le :: "pyfloat \<Rightarrow> pyfloat \<Rightarrow> bool" where
  "flt_le NaN b = False"
| "flt_le a NaN = False"
| "flt_le NegInf b = True"
| "flt_le a PosInf = True"
| "flt_le PosInf b = False"
| "flt_le a NegInf = False"
| "flt_le (Fin a) (Fin b) = (a \<le> b)"

definition bind_err :: "error + 'a \<Rightarrow> ('a \<Rightarrow> error + 'b) \<Rightarrow> error + 'b" where
  "bind_err m f = (case m of Inl e \<Rightarrow> Inl e | Inr v \<Rightarrow> f v)"

text \<open>Python's \<open>xs[i]\<close> for a non-negative index: IndexError out of range.\<close>

definition subscript :: "'a list \<Rightarrow> nat \<Rightarrow> error + 'a" where
  "subscript xs i = (if i < length xs then Inr (xs ! i) else Inl IndexError)"

section \<open>Configuration\<close>

type_synonym color = "nat \<times> nat \<times> nat"

definition CHUNK_SIZE :: nat where
  "CHUNK_SIZE = 1024"

definition WIDTH :: int where
  "WIDTH = 1000"

definition HEIGHT :: int where
  "HEIGHT = 500"

definition COLOR_THRESHOLDS_DB :: "int list" where
  "COLOR_THRESHOLDS_DB = [-45, -30, -15]"

definition COLOR_PALETTE :: "color list" where
  "COLOR_PALETTE = [(255, 255, 255), (255, 255, 0), (255, 165, 0), (255, 0, 0)]"

section \<open>get_waveform_color\<close>

text \<open>
  The \<open>if\<close>/\<open>elif\<close> chain of \<open>get_waveform_color\<close>, with the two module-level lists it
  reads as parameters. Each subscript is evaluated only when control reaches it, as in
  the source. The loudness is a float, each threshold a Python integer.
\<close>

definition level_below :: "pyfloat \<Rightarrow> int \<Rightarrow> bool" where
  "level_below x t = flt_less x (Fin (real_of_int t))"

definition get_waveform_color_cfg :: "int list \<Rightarrow> color list \<Rightarrow> pyfloat \<Rightarrow> error + color" where
  "get_waveform_color_cfg ths pal rms_dbfs =
     bind_err (subscript ths 0) (\<lambda>t0.
       if level_below rms_dbfs t0 then subscript pal 0
       else bind_err (subscript ths 1) (\<lambda>t1.
         if level_below rms_dbfs t1 then subscript pal 1
         else bind_err (subscript ths 2) (\<lambda>t2.
           if level_below rms_dbfs t2 then subscript pal 2
           else subscript pal 3)))"

definition get_waveform_color :: "pyfloat \<Rightarrow> error + color" where
  "get_waveform_color rms_dbfs = get_waveform_color_cfg COLOR_THRESHOLDS_DB COLOR_PALETTE rms_dbfs"

text \<open>
  The tier is the palette index that the chain selects: the same chain, returning the
  index in place of the palette entry.
\<close>

definition get_waveform_tier_cfg :: "int list \<Rightarrow> pyfloat \<Rightarrow> error + nat" where
  "get_waveform_tier_cfg ths rms_dbfs =
     bind_err (subscript ths 0) (\<lambda>t0.
       if level_below rms_dbfs t0 then Inr 0
       else bind_err (subscript ths 1) (\<lambda>t1.
         if level_below rms_dbfs t1 then Inr 1
         else bind_err (subscript ths 2) (\<lambda>t2.
           if level_below rms_dbfs t2 then Inr 2
           else Inr 3)))"

definition get_waveform_tier :: "pyfloat \<Rightarrow> error + nat" where
  "get_waveform_tier rms_dbfs = get_waveform_tier_cfg COLOR_THRESHOLDS_DB rms_dbfs"

section \<open>Float arithmetic\<close>

text \<open>
  The exact sum and product of two floats: the rows for a NaN or an infinity are those
  of IEEE 754, the same in every format; the row for two numbers is the real result,
  which an operation of the program then rounds to its format.
\<close>

fun flt_add :: "pyfloat \<Rightarrow> pyfloat \<Rightarrow> pyfloat" where
  "flt_add NaN b = NaN"
| "flt_add a NaN = NaN"
| "flt_add PosInf NegInf = NaN"
| "flt_add NegInf PosInf = NaN"
| "flt_add PosInf b = PosInf"
| "flt_add a PosInf = PosInf"
| "flt_add NegInf b = NegInf"
| "flt_add a NegInf = NegInf"
| "flt_add (Fin a) (Fin b) = Fin (a + b)"

definition inf_times :: "real \<Rightarrow> pyfloat" where
  "inf_times a = (if a = 0 then NaN else if 0 < a then PosInf else NegInf)"

fun flt_mul :: "pyfloat \<Rightarrow> pyfloat \<Rightarrow> pyfloat" where
  "flt_mul NaN b = NaN"
| "flt_mul a NaN = NaN"
| "flt_mul (Fin a) (Fin b) = Fin (a * b)"
| "flt_mul (Fin a) PosInf = inf_times a"
| "flt_mul (Fin a) NegInf = inf_times (- a)"
| "flt_mul PosInf (Fin b) = inf_times b"
| "flt_mul NegInf (Fin b) = inf_times (- b)"
| "flt_mul PosInf PosInf = PosInf"
| "flt_mul NegInf NegInf = PosInf"
| "flt_mul PosInf NegInf = NegInf"
| "flt_mul NegInf PosInf = NegInf"

fun flt_neg :: "pyfloat \<Rightarrow> pyfloat" where
  "flt_neg NaN = NaN"
| "flt_neg NegInf = PosInf"
| "flt_neg PosInf = NegInf"
| "flt_neg (Fin a) = Fin (- a)"

text \<open>
  The two formats of the program: a Python float is an IEEE 754 binary64 value, a
  sample of the input stream (\<open>dtype='float32'\<close>) a binary32 value. An arithmetic
  operation returns the exact result rounded to the nearest value of its format, ties
  to the even significand. \<open>round_float\<close> is that rounding on the reals: the spacing of
  the format's values around x is 2 to the power \<open>ulp_exponent\<close> (the binary exponent of
  x less the fraction bits, and never below the spacing of the subnormal values).
\<close>

datatype float_format = Binary32 | Binary64

fun precision :: "float_format \<Rightarrow> nat" where
  "precision Binary32 = 24"
| "precision Binary64 = 53"

fun emin :: "float_format \<Rightarrow> int" where
  "emin Binary32 = - 126"
| "emin Binary64 = - 1022"

fun emax :: "float_format \<Rightarrow> int" where
  "emax Binary32 = 127"
| "emax Binary64 = 1023"

definition fraction_bits :: "float_format \<Rightarrow> nat" where
  "fraction_bits fmt = precision fmt - 1"

definition round_half_even :: "real \<Rightarrow> int" where
  "round_half_even x =
     (let f = \<lfloor>x\<rfloor>; d = x - real_of_int f
      in if d < 1 / 2 then f else if 1 / 2 < d then f + 1 else if even f then f else f + 1)"

definition pow2 :: "int \<Rightarrow> real" where
  "pow2 e = 2 powr real_of_int e"

definition ulp_exponent :: "float_format \<Rightarrow> real \<Rightarrow> int" where
  "ulp_exponent fmt x = max \<lfloor>log 2 \<bar>x\<bar>\<rfloor> (emin fmt) - int (fraction_bits fmt)"

definition round_float :: "float_format \<Rightarrow> real \<Rightarrow> real" where
  "round_float fmt x =
     (if x = 0 then 0
      else real_of_int (round_half_even (x / pow2 (ulp_exponent fmt x)))
             * pow2 (ulp_exponent fmt x))"

abbreviation round_binary64 :: "real \<Rightarrow> real" where
  "round_binary64 \<equiv> round_float Binary64"

text \<open>A rounded result of magnitude 2^(emax + 1) or more overflows to an infinity.\<close>

definition to_float :: "float_format \<Rightarrow> real \<Rightarrow> pyfloat" where
  "to_float fmt x =
     (let r = round_float fmt x
      in if pow2 (emax fmt + 1) \<le> r then PosInf
         else if r \<le> - pow2 (emax fmt + 1) then NegInf else Fin r)"

text \<open>The rounding of a result, and the conversion of a float to a format.\<close>

fun fl_round :: "float_format \<Rightarrow> pyfloat \<Rightarrow> pyfloat" where
  "fl_round fmt (Fin x) = to_float fmt x"
| "fl_round fmt a = a"

text \<open>Float \<open>*\<close> and \<open>-\<close>: never an exception; an overflow gives an infinity.\<close>

definition fl_mul :: "float_format \<Rightarrow> pyfloat \<Rightarrow> pyfloat \<Rightarrow> pyfloat" where
  "fl_mul fmt a b = fl_round fmt (flt_mul a b)"

definition fl_sub :: "float_format \<Rightarrow> pyfloat \<Rightarrow> pyfloat \<Rightarrow> pyfloat" where
  "fl_sub fmt a b = fl_round fmt (flt_add a (flt_neg b))"

section \<open>calculate_rms_dbfs\<close>

text \<open>
  What a NumPy operation returns on operands that are numbers depends on the dtype in
  which it computes (float32 for the arrays of the callback, float64 after a
  promotion, which differs between NumPy versions), on the order in which a reduction
  adds, and for \<open>log10\<close> on the mathematical library of the platform. None of this is
  code of the program, so these results are parameters: one function for each
  operation of \<open>calculate_rms_dbfs\<close>, giving the float NumPy returns on numbers.
\<close>

record numpy_kernels =
  k_square :: "real \<Rightarrow> pyfloat"
  k_mean :: "pyfloat list \<Rightarrow> pyfloat"
  k_sqrt :: "real \<Rightarrow> pyfloat"
  k_add :: "real \<Rightarrow> real \<Rightarrow> pyfloat"
  k_log10 :: "real \<Rightarrow> pyfloat"
  k_multiply :: "real \<Rightarrow> real \<Rightarrow> pyfloat"

text \<open>
  On a NaN or an infinity every dtype follows IEEE 754, and NumPy reports an invalid
  operation by a warning and a NaN result, never by an exception. A reduction over an
  array that holds a NaN returns NaN in whatever order it adds, and the mean of an
  empty array is NaN.
\<close>

fun np_square :: "numpy_kernels \<Rightarrow> pyfloat \<Rightarrow> pyfloat" where
  "np_square K NaN = NaN"
| "np_square K NegInf = PosInf"
| "np_square K PosInf = PosInf"
| "np_square K (Fin a) = k_square K a"

definition np_mean :: "numpy_kernels \<Rightarrow> pyfloat list \<Rightarrow> pyfloat" where
  "np_mean K xs = (if xs = [] \<or> NaN \<in> set xs then NaN else k_mean K xs)"

fun np_sqrt :: "numpy_kernels \<Rightarrow> pyfloat \<Rightarrow> pyfloat" where
  "np_sqrt K NaN = NaN"
| "np_sqrt K NegInf = NaN"
| "np_sqrt K PosInf = PosInf"
| "np_sqrt K (Fin a) = (if a < 0 then NaN else k_sqrt K a)"

fun np_add :: "numpy_kernels \<Rightarrow> pyfloat \<Rightarrow> pyfloat \<Rightarrow> pyfloat" where
  "np_add K (Fin a) (Fin b) = k_add K a b"
| "np_add K a b = flt_add a b"

fun np_log10 :: "numpy_kernels \<Rightarrow> pyfloat \<Rightarrow> pyfloat" where
  "np_log10 K NaN = NaN"
| "np_log10 K NegInf = NaN"
| "np_log10 K PosInf = PosInf"
| "np_log10 K (Fin a) = (if a < 0 then NaN else if a = 0 then NegInf else k_log10 K a)"

fun np_multiply :: "numpy_kernels \<Rightarrow> pyfloat \<Rightarrow> pyfloat \<Rightarrow> pyfloat" where
  "np_multiply K (Fin a) (Fin b) = k_multiply K a b"
| "np_multiply K a b = flt_mul a b"

text \<open>The literal \<open>1e-10\<close> is the Python float nearest to that number.\<close>

definition epsilon :: real where
  "epsilon = round_binary64 (1 / 10 ^ 10)"

definition calculate_rms_dbfs :: "numpy_kernels \<Rightarrow> pyfloat list \<Rightarrow> pyfloat" where
  "calculate_rms_dbfs K data_chunk =
     (let rms_linear = np_sqrt K (np_mean K (map (np_square K) data_chunk));
          rms_dbfs = np_multiply K (Fin 20) (np_log10 K (np_add K rms_linear (Fin epsilon)))
      in rms_dbfs)"

text \<open>
  One instance of the parameters, used where a concrete one is needed: every operation
  computed in one format, its operands converted to the format and its result
  correctly rounded, the reduction adding from left to right. The properties below
  hold for every value of the parameters.
\<close>

fun flt_div_count :: "pyfloat \<Rightarrow> nat \<Rightarrow> pyfloat" where
  "flt_div_count NaN n = NaN"
| "flt_div_count PosInf n = PosInf"
| "flt_div_count NegInf n = NegInf"
| "flt_div_count (Fin a) n = (if n = 0 then (if a = 0 then NaN else inf_times a) else Fin (a / real n))"

definition rounded_kernels :: "float_format \<Rightarrow> numpy_kernels" where
  "rounded_kernels fmt =
     \<lparr>k_square = (\<lambda>a. to_float fmt (a * a)),
      k_mean = (\<lambda>xs. fl_round fmt
                  (flt_div_count (foldl (\<lambda>s x. fl_round fmt (flt_add s x)) (Fin 0) xs) (length xs))),
      k_sqrt = (\<lambda>a. to_float fmt (sqrt a)),
      k_add = (\<lambda>a b. to_float fmt (round_float fmt a + round_float fmt b)),
      k_log10 = (\<lambda>a. to_float fmt (log 10 a)),
      k_multiply = (\<lambda>a b. to_float fmt (round_float fmt a * round_float fmt b))\<rparr>"

section \<open>The capture hand-off\<close>

text \<open>
  The module-level variables shared by the audio callback and the main loop. The queue
  is a FIFO: \<open>put\<close> appends at the back, \<open>get_nowait\<close> removes the front. Each operation
  is modelled as one atomic step; the interleaving of the two threads inside an
  operation is not modelled.
\<close>

type_synonym chunk = "pyfloat list"

record globals =
  audio_q :: "chunk list"
  latest_data_chunk :: chunk
  last_rms_dbfs :: pyfloat
  new_data_available :: bool

definition initial_globals :: globals where
  "initial_globals =
     \<lparr>audio_q = [], latest_data_chunk = replicate CHUNK_SIZE (Fin 0),
      last_rms_dbfs = NegInf, new_data_available = False\<rparr>"

text \<open>
  \<open>audio_callback\<close>; its argument is the first channel \<open>indata[:, 0]\<close> of the block. The
  status message goes to stderr and does not touch the state.
\<close>

definition audio_callback :: "globals \<Rightarrow> chunk \<Rightarrow> globals" where
  "audio_callback g indata0 = g\<lparr>audio_q := audio_q g @ [indata0], new_data_available := True\<rparr>"

text \<open>
  \<open>while not audio_q.empty(): latest_data_chunk = audio_q.get_nowait()\<close>: returns the
  queue left over and the chunk held at the end.
\<close>

fun drain :: "chunk list \<Rightarrow> chunk \<Rightarrow> chunk list \<times> chunk" where
  "drain [] latest = ([], latest)"
| "drain (c # q) latest = drain q c"

text \<open>The "Get Audio Data" block of one iteration of the main loop.\<close>

definition get_audio_data :: "numpy_kernels \<Rightarrow> globals \<Rightarrow> globals" where
  "get_audio_data K g =
     (if new_data_available g then
        (case drain (audio_q g) (latest_data_chunk g) of
           (q, latest) \<Rightarrow>
             g\<lparr>audio_q := q, latest_data_chunk := latest,
               last_rms_dbfs := calculate_rms_dbfs K latest, new_data_available := False\<rparr>)
      else g)"

text \<open>
  What one poll hands to the rest of the frame: the chunk taken from the queue when the
  flag was set, nothing otherwise (the frame then draws \<open>latest_data_chunk\<close> as it was).
\<close>

definition consumeLatest :: "numpy_kernels \<Rightarrow> globals \<Rightarrow> chunk option" where
  "consumeLatest K g =
     (if new_data_available g then Some (latest_data_chunk (get_audio_data K g)) else None)"

datatype event = Submit chunk | Consume

fun step :: "numpy_kernels \<Rightarrow> globals \<Rightarrow> event \<Rightarrow> globals" where
  "step K g (Submit c) = audio_callback g c"
| "step K g Consume = get_audio_data K g"

definition run :: "numpy_kernels \<Rightarrow> event list \<Rightarrow> globals" where
  "run K evs = foldl (step K) initial_globals evs"

text \<open>The number of submits since the last consume of a history.\<close>

definition unconsumed :: "event list \<Rightarrow> nat" where
  "unconsumed evs = length (takeWhile (\<lambda>e. e \<noteq> Consume) (rev evs))"

section \<open>Python numbers\<close>

text \<open>
  The conversion of an integer to a float, and the true division \<open>a / b\<close> of two
  integers: both correctly rounded to binary64, both raising OverflowError when the
  result is too large for a float.
\<close>

definition finite_or_overflow :: "pyfloat \<Rightarrow> error + pyfloat" where
  "finite_or_overflow a = (case a of Fin r \<Rightarrow> Inr (Fin r) | _ \<Rightarrow> Inl OverflowError)"

definition int_to_float :: "int \<Rightarrow> error + pyfloat" where
  "int_to_float i = finite_or_overflow (to_float Binary64 (real_of_int i))"

definition int_truediv :: "int \<Rightarrow> int \<Rightarrow> error + pyfloat" where
  "int_truediv a b =
     (if b = 0 then Inl ZeroDivisionError
      else finite_or_overflow (to_float Binary64 (real_of_int a / real_of_int b)))"

text \<open>A number that is an integer on one path and a float on another.\<close>

datatype pynum = PyInt int | PyFloat pyfloat

text \<open>\<open>i * x\<close> for an integer i: the integer is converted when x is a float.\<close>

fun int_mul :: "int \<Rightarrow> pynum \<Rightarrow> error + pynum" where
  "int_mul i (PyInt w) = Inr (PyInt (i * w))"
| "int_mul i (PyFloat f) = bind_err (int_to_float i) (\<lambda>fi. Inr (PyFloat (fl_mul Binary64 fi f)))"

text \<open>\<open>int(x)\<close>: truncation toward zero; ValueError on NaN, OverflowError on an infinity.\<close>

definition truncate :: "real \<Rightarrow> int" where
  "truncate r = (if 0 \<le> r then \<lfloor>r\<rfloor> else \<lceil>r\<rceil>)"

fun py_int :: "pynum \<Rightarrow> error + int" where
  "py_int (PyInt k) = Inr k"
| "py_int (PyFloat NaN) = Inl ValueError"
| "py_int (PyFloat PosInf) = Inl OverflowError"
| "py_int (PyFloat NegInf) = Inl OverflowError"
| "py_int (PyFloat (Fin r)) = Inr (truncate r)"

text \<open>
  A float scalar is either a NumPy scalar, as the elements of \<open>data_chunk\<close> are, or a
  Python float, as the literals \<open>1.0\<close> and \<open>-1.0\<close> and the quotient \<open>height / 2\<close> are.
\<close>

datatype scalar = NpScalar pyfloat | PyScalar pyfloat

fun scalar_value :: "scalar \<Rightarrow> pyfloat" where
  "scalar_value (NpScalar a) = a"
| "scalar_value (PyScalar a) = a"

text \<open>
  The builtins \<open>min(a, b)\<close> and \<open>max(a, b)\<close> return one of their arguments, the object
  itself: the first, unless the second compares less (greater).
\<close>

definition py_min :: "scalar \<Rightarrow> scalar \<Rightarrow> scalar" where
  "py_min a b = (if flt_less (scalar_value b) (scalar_value a) then b else a)"

definition py_max :: "scalar \<Rightarrow> scalar \<Rightarrow> scalar" where
  "py_max a b = (if flt_less (scalar_value a) (scalar_value b) then b else a)"

text \<open>
  \<open>s * f\<close> and \<open>f - s\<close> for a scalar s and a Python float f. Two Python floats give a
  Python float, computed in binary64. A NumPy scalar and a Python float give a NumPy
  scalar, computed in the format \<open>fmt\<close> to which NumPy promotes the pair, the Python
  float converted to it first: the dtype of the scalar (binary32 for the samples of
  the stream) under NumPy 2, binary64 under the promotion rules of NumPy 1.
\<close>

fun scalar_mul :: "float_format \<Rightarrow> scalar \<Rightarrow> pyfloat \<Rightarrow> scalar" where
  "scalar_mul fmt (NpScalar a) f = NpScalar (fl_mul fmt a (fl_round fmt f))"
| "scalar_mul fmt (PyScalar a) f = PyScalar (fl_mul Binary64 a f)"

fun float_sub :: "float_format \<Rightarrow> pyfloat \<Rightarrow> scalar \<Rightarrow> scalar" where
  "float_sub fmt f (NpScalar b) = NpScalar (fl_sub fmt (fl_round fmt f) b)"
| "float_sub fmt f (PyScalar b) = PyScalar (fl_sub Binary64 f b)"

section \<open>generate_waveform_points\<close>

text \<open>
  The width and the height are Python integers, as the main loop passes them, and
  \<open>data_chunk\<close> is an array of NumPy scalars. The body of the loop, for the index i and
  the sample at that index:
\<close>

definition waveform_point :: "float_format \<Rightarrow> pynum \<Rightarrow> pyfloat \<Rightarrow> pyfloat \<Rightarrow> nat \<Rightarrow> pyfloat
    \<Rightarrow> error + int \<times> int" where
  "waveform_point fmt x_scale center_y max_amplitude i amplitude =
     (let clamped_amplitude = py_max (PyScalar (Fin (- 1))) (py_min (PyScalar (Fin 1)) (NpScalar amplitude))
      in bind_err (bind_err (int_mul (int i) x_scale) py_int) (\<lambda>x.
         bind_err (py_int (PyFloat (scalar_value
                     (float_sub fmt center_y (scalar_mul fmt clamped_amplitude max_amplitude))))) (\<lambda>y.
         Inr (x, y))))"

text \<open>The loop over \<open>enumerate(data_chunk)\<close>, from index i on, appending to \<open>points\<close>.\<close>

fun waveform_loop :: "float_format \<Rightarrow> pynum \<Rightarrow> pyfloat \<Rightarrow> pyfloat \<Rightarrow> nat \<Rightarrow> pyfloat list
    \<Rightarrow> (int \<times> int) list \<Rightarrow> error + (int \<times> int) list" where
  "waveform_loop fmt x_scale center_y max_amplitude i [] points = Inr points"
| "waveform_loop fmt x_scale center_y max_amplitude i (amplitude # rest) points =
     bind_err (waveform_point fmt x_scale center_y max_amplitude i amplitude) (\<lambda>p.
       waveform_loop fmt x_scale center_y max_amplitude (Suc i) rest (points @ [p]))"

definition generate_waveform_points :: "float_format \<Rightarrow> pyfloat list \<Rightarrow> int \<Rightarrow> int
    \<Rightarrow> error + (int \<times> int) list" where
  "generate_waveform_points fmt data_chunk width height =
     (let num_samples = length data_chunk
      in if num_samples = 0 then Inr []
         else
           bind_err (int_truediv height 2) (\<lambda>max_amplitude.
           bind_err (int_truediv height 2) (\<lambda>center_y.
           bind_err (if num_samples > 1
                     then bind_err (int_truediv width (int num_samples - 1)) (\<lambda>q. Inr (PyFloat q))
                     else Inr (PyInt width)) (\<lambda>x_scale.
           bind_err (waveform_loop fmt x_scale center_y max_amplitude 0 data_chunk []) (\<lambda>points.
             Inr (if length points = 1 then points @ [points ! 0] else points))))))"

text \<open>
  The coordinates in the words of the specification, evaluated in the floats of the
  program: \<open>x = floor(i * x_scale)\<close> with \<open>x_scale = W / (N - 1)\<close> in binary64, and
  \<open>y = floor(H/2 - clamp(a, -1, 1) * H/2)\<close> in the format of the sample arithmetic.
\<close>

definition clamp_unit :: "pyfloat \<Rightarrow> real" where
  "clamp_unit a = (case a of NaN \<Rightarrow> 1 | PosInf \<Rightarrow> 1 | NegInf \<Rightarrow> - 1 | Fin r \<Rightarrow> max (- 1) (min 1 r))"

definition x_value :: "int \<Rightarrow> nat \<Rightarrow> nat \<Rightarrow> real" where
  "x_value W N i = round_binary64 (real i * round_binary64 (real_of_int W / real (N - 1)))"

definition y_value :: "float_format \<Rightarrow> int \<Rightarrow> pyfloat \<Rightarrow> real" where
  "y_value fmt H a =
     round_float fmt (real_of_int H / 2 - round_float fmt (clamp_unit a * (real_of_int H / 2)))"

definition spec_x :: "int \<Rightarrow> nat \<Rightarrow> nat \<Rightarrow> int" where
  "spec_x W N i = \<lfloor>x_value W N i\<rfloor>"

definition spec_y :: "float_format \<Rightarrow> int \<Rightarrow> pyfloat \<Rightarrow> int" where
  "spec_y fmt H a = \<lfloor>y_value fmt H a\<rfloor>"

section \<open>Properties of the capture hand-off\<close>

lemma drain_result: "drain q latest = ([], last (latest # q))"
  by (induction q arbitrary: latest) simp_all

lemma audio_q_foldl_callback:
  "audio_q (foldl audio_callback g cs) = audio_q g @ cs"
  by (induction cs arbitrary: g) (simp_all add: audio_callback_def)

lemma flag_foldl_callback:
  "new_data_available (foldl audio_callback g cs) = (new_data_available g \<or> cs \<noteq> [])"
  by (induction cs arbitrary: g) (auto simp: audio_callback_def)

text \<open>
  C1. Two submits without a consume in between: the next consume returns the second
  buffer, whatever the state before, and not the first one when the two differ; the
  buffer held afterwards is the second one. A consume before any submit returns no new
  data and leaves the held buffer as it was, however often it is repeated.
\<close>

theorem C1_last_write_wins:
  "consumeLatest K (audio_callback (audio_callback g A) B) = Some B
   \<and> (A \<noteq> B \<longrightarrow> consumeLatest K (audio_callback (audio_callback g A) B) \<noteq> Some A)
   \<and> latest_data_chunk (get_audio_data K (audio_callback (audio_callback g A) B)) = B
   \<and> consumeLatest K ((get_audio_data K ^^ n) initial_globals) = None
   \<and> (get_audio_data K ^^ n) initial_globals = initial_globals"
proof -
  have idle: "(get_audio_data K ^^ k) initial_globals = initial_globals" for k
    by (induction k) (simp_all add: get_audio_data_def initial_globals_def)
  have "consumeLatest K initial_globals = None"
    by (simp add: consumeLatest_def initial_globals_def)
  moreover have "consumeLatest K (audio_callback (audio_callback g A) B) = Some B"
    by (simp add: consumeLatest_def get_audio_data_def audio_callback_def drain_result)
  moreover have "latest_data_chunk (get_audio_data K (audio_callback (audio_callback g A) B)) = B"
    by (simp add: get_audio_data_def audio_callback_def drain_result)
  ultimately show ?thesis
    using idle by simp
qed

theorem C1_last_write_wins_witness:
  "[Fin 0] \<noteq> [Fin 1]
   \<and> consumeLatest (rounded_kernels Binary32)
         (audio_callback (audio_callback initial_globals [Fin 0]) [Fin 1]) \<noteq> Some [Fin 0]"
  using C1_last_write_wins [of "rounded_kernels Binary32" initial_globals "[Fin 0]" "[Fin 1]" 0]
  by simp

lemma run_snoc: "run K (evs @ [e]) = step K (run K evs) e"
  by (simp add: run_def)

lemma unconsumed_snoc_Submit: "unconsumed (evs @ [Submit c]) = Suc (unconsumed evs)"
  by (simp add: unconsumed_def)

lemma unconsumed_snoc_Consume: "unconsumed (evs @ [Consume]) = 0"
  by (simp add: unconsumed_def)

lemma run_invariant:
  "length (audio_q (run K evs)) = unconsumed evs
   \<and> new_data_available (run K evs) = (audio_q (run K evs) \<noteq> [])"
proof (induction evs rule: rev_induct)
  case Nil
  show ?case
    by (simp add: run_def initial_globals_def unconsumed_def)
next
  case (snoc e evs)
  show ?case
  proof (cases e)
    case (Submit c)
    with snoc show ?thesis
      by (simp add: run_snoc unconsumed_snoc_Submit audio_callback_def)
  next
    case Consume
    with snoc show ?thesis
      by (simp add: run_snoc unconsumed_snoc_Consume get_audio_data_def drain_result)
  qed
qed

text \<open>
  C2, as stated, fails: the bridge is a FIFO queue, and a second submit before a consume
  is appended to it, so two unconsumed buffers are stored.
\<close>

theorem C2_two_buffers_stored:
  "audio_q (run (rounded_kernels Binary32) [Submit [Fin 0], Submit [Fin 1]]) = [[Fin 0], [Fin 1]]
   \<and> \<not> length (audio_q (run (rounded_kernels Binary32) [Submit [Fin 0], Submit [Fin 1]])) \<le> 1"
  by (simp add: run_def initial_globals_def audio_callback_def)

text \<open>
  C2, amended. After every history of submits and consumes: the queue stores every buffer
  submitted since the last consume, their number unbounded, and the flag is set exactly
  when the queue is not empty (Pending), clear when it is empty (Idle); a submit appends
  its buffer behind the stored ones and sets the flag; a consume empties the queue, clears
  the flag and keeps the newest of the stored buffers only, or the held buffer when
  nothing was stored.
\<close>

theorem C2_queue_invariant:
  "length (audio_q (run K evs)) = unconsumed evs
   \<and> new_data_available (run K evs) = (audio_q (run K evs) \<noteq> [])
   \<and> audio_q (run K (evs @ [Submit c])) = audio_q (run K evs) @ [c]
   \<and> new_data_available (run K (evs @ [Submit c]))
   \<and> audio_q (run K (evs @ [Consume])) = []
   \<and> \<not> new_data_available (run K (evs @ [Consume]))
   \<and> latest_data_chunk (run K (evs @ [Consume]))
       = last (latest_data_chunk (run K evs) # audio_q (run K evs))"
proof -
  have inv: "new_data_available (run K evs) = (audio_q (run K evs) \<noteq> [])"
    using run_invariant [of K evs] by simp
  have "audio_q (run K (evs @ [Consume])) = []"
    using inv by (simp add: run_snoc get_audio_data_def drain_result)
  moreover have "\<not> new_data_available (run K (evs @ [Consume]))"
    by (simp add: run_snoc get_audio_data_def drain_result)
  moreover have "latest_data_chunk (run K (evs @ [Consume]))
      = last (latest_data_chunk (run K evs) # audio_q (run K evs))"
    using inv by (simp add: run_snoc get_audio_data_def drain_result)
  moreover have "audio_q (run K (evs @ [Submit c])) = audio_q (run K evs) @ [c]"
    by (simp add: run_snoc audio_callback_def)
  moreover have "new_data_available (run K (evs @ [Submit c]))"
    by (simp add: run_snoc audio_callback_def)
  ultimately show ?thesis
    using run_invariant [of K evs] by simp
qed

text \<open>
  C3. From any state, after one submit or more with no consume since: the first consume
  returns a buffer (the newest submitted), the second returns no new data, and the
  buffer held stays the one the first consume returned.
\<close>

theorem C3_consume_twice:
  "consumeLatest K (foldl audio_callback (audio_callback g A) Bs) = Some (last (A # Bs))
   \<and> consumeLatest K (get_audio_data K (foldl audio_callback (audio_callback g A) Bs)) = None
   \<and> latest_data_chunk (get_audio_data K (get_audio_data K (foldl audio_callback (audio_callback g A) Bs)))
       = last (A # Bs)"
proof -
  let ?g = "foldl audio_callback (audio_callback g A) Bs"
  have q: "audio_q ?g = audio_q g @ A # Bs"
    by (simp add: audio_q_foldl_callback audio_callback_def)
  have f: "new_data_available ?g"
    by (simp add: flag_foldl_callback audio_callback_def)
  have l: "last (latest_data_chunk ?g # audio_q g @ A # Bs) = last (A # Bs)"
    by simp
  have first: "consumeLatest K ?g = Some (last (A # Bs))"
    using f l by (simp add: consumeLatest_def get_audio_data_def drain_result q del: last.simps)
  have off: "\<not> new_data_available (get_audio_data K ?g)"
    by (simp add: get_audio_data_def drain_result)
  have held: "latest_data_chunk (get_audio_data K ?g) = last (A # Bs)"
    using f l by (simp add: get_audio_data_def drain_result q del: last.simps)
  have again: "get_audio_data K (get_audio_data K ?g) = get_audio_data K ?g"
    using off by (simp add: get_audio_data_def [of K "get_audio_data K ?g"])
  show ?thesis
    using first off held again by (simp add: consumeLatest_def)
qed

section \<open>Properties of the colour classifier\<close>

lemma not_less_iff_le: "x \<noteq> NaN \<Longrightarrow> (\<not> flt_less x (Fin t)) = flt_le (Fin t) x"
  by (cases x) auto


lemma tier_default:
  "get_waveform_tier x =
     (if flt_less x (Fin (- 45)) then Inr 0
      else if flt_less x (Fin (- 30)) then Inr 1
      else if flt_less x (Fin (- 15)) then Inr 2 else Inr 3)"
  by (simp add: get_waveform_tier_def get_waveform_tier_cfg_def COLOR_THRESHOLDS_DB_def
      bind_err_def subscript_def level_below_def)

lemma color_default:
  "get_waveform_color x =
     (if flt_less x (Fin (- 45)) then Inr (255, 255, 255)
      else if flt_less x (Fin (- 30)) then Inr (255, 255, 0)
      else if flt_less x (Fin (- 15)) then Inr (255, 165, 0) else Inr (255, 0, 0))"
  by (simp add: get_waveform_color_def get_waveform_color_cfg_def COLOR_THRESHOLDS_DB_def
      COLOR_PALETTE_def bind_err_def subscript_def level_below_def)

lemma flt_less_chain: "flt_less x (Fin a) \<Longrightarrow> a \<le> b \<Longrightarrow> flt_less x (Fin b)"
  by (cases x) auto

text \<open>
  C5. For every loudness level that is a number or an infinity, with the thresholds
  -45, -30, -15: the tier is 0 and the colour White exactly when x < -45; 1 and Yellow
  exactly when -45 \<le> x < -30; 2 and Orange exactly when -30 \<le> x < -15; 3 and Red
  exactly when x \<ge> -15. So every such level falls into one interval and gets its tier.
\<close>

theorem C5_interval_semantics:
  assumes "x \<noteq> NaN"
  shows "(get_waveform_tier x = Inr 0) = flt_less x (Fin (- 45))
    \<and> (get_waveform_tier x = Inr 1) = (flt_le (Fin (- 45)) x \<and> flt_less x (Fin (- 30)))
    \<and> (get_waveform_tier x = Inr 2) = (flt_le (Fin (- 30)) x \<and> flt_less x (Fin (- 15)))
    \<and> (get_waveform_tier x = Inr 3) = flt_le (Fin (- 15)) x
    \<and> (get_waveform_color x = Inr (255, 255, 255)) = flt_less x (Fin (- 45))
    \<and> (get_waveform_color x = Inr (255, 255, 0)) = (flt_le (Fin (- 45)) x \<and> flt_less x (Fin (- 30)))
    \<and> (get_waveform_color x = Inr (255, 165, 0)) = (flt_le (Fin (- 30)) x \<and> flt_less x (Fin (- 15)))
    \<and> (get_waveform_color x = Inr (255, 0, 0)) = flt_le (Fin (- 15)) x"
proof -
  have a: "flt_less x (Fin (- 45)) \<Longrightarrow> flt_less x (Fin (- 30))"
    by (erule flt_less_chain) simp
  have b: "flt_less x (Fin (- 30)) \<Longrightarrow> flt_less x (Fin (- 15))"
    by (erule flt_less_chain) simp
  have n: "flt_le (Fin t) x = (\<not> flt_less x (Fin t))" for t
    using assms by (simp add: not_less_iff_le)
  show ?thesis
    using a b by (auto simp: tier_default color_default n)
qed

theorem C5_interval_semantics_witness:
  "NegInf \<noteq> NaN \<and> get_waveform_color NegInf = Inr (255, 255, 255)
   \<and> Fin (- 45) \<noteq> NaN \<and> get_waveform_color (Fin (- 45)) = Inr (255, 255, 0)
   \<and> Fin (- 30) \<noteq> NaN \<and> get_waveform_tier (Fin (- 30)) = Inr 2
   \<and> Fin (- 15) \<noteq> NaN \<and> get_waveform_color (Fin (- 15)) = Inr (255, 0, 0)
   \<and> PosInf \<noteq> NaN \<and> get_waveform_tier PosInf = Inr 3"
  using C5_interval_semantics [of NegInf] C5_interval_semantics [of "Fin (- 45)"]
    C5_interval_semantics [of "Fin (- 30)"] C5_interval_semantics [of "Fin (- 15)"]
    C5_interval_semantics [of PosInf]
  by simp






section \<open>Properties of the loudness estimator\<close>

lemma np_square_NaN: "NaN \<in> set xs \<Longrightarrow> NaN \<in> set (map (np_square K) xs)"
  by (force simp: image_iff)

lemma calc_NaN:
  assumes "NaN \<in> set xs"
  shows "calculate_rms_dbfs K xs = NaN"
proof -
  have "np_mean K (map (np_square K) xs) = NaN"
    using np_square_NaN [OF assms, of K] by (simp add: np_mean_def)
  then show ?thesis
    by (simp add: calculate_rms_dbfs_def)
qed

text \<open>
  C10. A NaN loudness gets the last colour of the palette, Red (tier 3): every
  comparison is false and the final else branch is taken. The loudness of a buffer
  that contains a NaN sample is NaN, so such a buffer is drawn in Red.
\<close>

theorem C10_nan_is_red:
  "get_waveform_color NaN = Inr (255, 0, 0) \<and> get_waveform_tier NaN = Inr 3
   \<and> (NaN \<in> set xs \<longrightarrow> calculate_rms_dbfs K xs = NaN)
   \<and> (NaN \<in> set xs \<longrightarrow> get_waveform_color (calculate_rms_dbfs K xs) = Inr (255, 0, 0))"
  using calc_NaN [of xs K] by (simp add: color_default tier_default)

theorem C10_nan_is_red_witness:
  "NaN \<in> set [Fin 0, NaN, Fin 1]
   \<and> calculate_rms_dbfs (rounded_kernels Binary32) [Fin 0, NaN, Fin 1] = NaN
   \<and> get_waveform_color (calculate_rms_dbfs (rounded_kernels Binary32) [Fin 0, NaN, Fin 1])
       = Inr (255, 0, 0)"
  using C10_nan_is_red [of "[Fin 0, NaN, Fin 1]" "rounded_kernels Binary32"] by simp

section \<open>Properties of the rounding\<close>

lemma rhe_of_int: "round_half_even (real_of_int k) = k"
  by (simp add: round_half_even_def)

lemma rhe_cases: "round_half_even x = \<lfloor>x\<rfloor> \<or> round_half_even x = \<lfloor>x\<rfloor> + 1"
  by (simp add: round_half_even_def Let_def)

lemma rhe_error: "\<bar>real_of_int (round_half_even x) - x\<bar> \<le> 1 / 2"
proof -
  have "real_of_int \<lfloor>x\<rfloor> \<le> x" "x < real_of_int \<lfloor>x\<rfloor> + 1"
    by linarith+
  then show ?thesis
    unfolding round_half_even_def Let_def by (simp split: if_splits)
qed

lemma rhe_mono:
  assumes "x \<le> y"
  shows "round_half_even x \<le> round_half_even y"
proof (cases "\<lfloor>x\<rfloor> = \<lfloor>y\<rfloor>")
  case True
  then show ?thesis
    using assms unfolding round_half_even_def Let_def by (simp split: if_splits)
next
  case False
  then have "\<lfloor>x\<rfloor> + 1 \<le> \<lfloor>y\<rfloor>"
    using assms floor_mono [of x y] by linarith
  moreover have "round_half_even x \<le> \<lfloor>x\<rfloor> + 1"
    using rhe_cases [of x] by auto
  moreover have "\<lfloor>y\<rfloor> \<le> round_half_even y"
    using rhe_cases [of y] by auto
  ultimately show ?thesis by linarith
qed


lemma floor_minus_nonint:
  fixes x :: real
  assumes "x \<notin> \<int>"
  shows "\<lfloor>- x\<rfloor> = - \<lfloor>x\<rfloor> - 1"
proof -
  have "real_of_int \<lfloor>x\<rfloor> \<noteq> x"
    using assms by (metis Ints_of_int)
  then have "real_of_int \<lfloor>x\<rfloor> < x" "x < real_of_int \<lfloor>x\<rfloor> + 1"
    by linarith+
  then show ?thesis
    unfolding floor_eq_iff by (simp; linarith)
qed

lemma rhe_minus: "round_half_even (- x) = - round_half_even x"
proof (cases "x \<in> \<int>")
  case True
  then obtain k where "x = real_of_int k" by (auto elim: Ints_cases)
  then show ?thesis
    using rhe_of_int [of "- k"] rhe_of_int [of k] by simp
next
  case False
  note f = floor_minus_nonint [OF False]
  have e: "even (- \<lfloor>x\<rfloor> - 1) = odd \<lfloor>x\<rfloor>"
    by simp
  show ?thesis
    unfolding round_half_even_def Let_def f e by (simp split: if_splits)
qed


lemma pow2_pos: "0 < pow2 e"
  by (simp add: pow2_def)

lemma pow2_add: "pow2 (a + b) = pow2 a * pow2 b"
  by (simp add: pow2_def powr_add)

lemma pow2_le: "a \<le> b \<Longrightarrow> pow2 a \<le> pow2 b"
  by (simp add: pow2_def)

lemma pow2_nat: "0 \<le> k \<Longrightarrow> pow2 k = real_of_int (2 ^ nat k)"
  by (simp add: pow2_def powr_real_of_int)

lemma pow2_numeral: "pow2 0 = 1"
  by (simp add: pow2_def)

lemma pow2_diff: "pow2 (a - b) = pow2 a / pow2 b"
  by (simp add: pow2_def powr_diff)

lemma ilog2_bounds:
  assumes "x \<noteq> 0"
  shows "pow2 \<lfloor>log 2 \<bar>x\<bar>\<rfloor> \<le> \<bar>x\<bar>" and "\<bar>x\<bar> < pow2 (\<lfloor>log 2 \<bar>x\<bar>\<rfloor> + 1)"
proof -
  have p: "0 < \<bar>x\<bar>" using assms by simp
  have "real_of_int \<lfloor>log 2 \<bar>x\<bar>\<rfloor> \<le> log 2 \<bar>x\<bar>"
    by simp
  then show "pow2 \<lfloor>log 2 \<bar>x\<bar>\<rfloor> \<le> \<bar>x\<bar>"
    unfolding pow2_def using p by (subst (asm) le_log_iff) simp_all
  have "log 2 \<bar>x\<bar> < real_of_int (\<lfloor>log 2 \<bar>x\<bar>\<rfloor> + 1)"
    by simp
  then show "\<bar>x\<bar> < pow2 (\<lfloor>log 2 \<bar>x\<bar>\<rfloor> + 1)"
    unfolding pow2_def using p by (subst (asm) log_less_iff) simp_all
qed

lemma ilog2_eqI:
  assumes "pow2 e \<le> \<bar>x\<bar>" and "\<bar>x\<bar> < pow2 (e + 1)"
  shows "\<lfloor>log 2 \<bar>x\<bar>\<rfloor> = e"
proof -
  have p: "0 < \<bar>x\<bar>"
    using assms(1) pow2_pos [of e] by linarith
  have "real_of_int e \<le> log 2 \<bar>x\<bar>"
    using assms(1) p unfolding pow2_def by (subst le_log_iff) simp_all
  moreover have "log 2 \<bar>x\<bar> < real_of_int (e + 1)"
    using assms(2) p unfolding pow2_def by (subst log_less_iff) simp_all
  ultimately show ?thesis
    by (simp add: floor_eq_iff)
qed

lemma precision_int: "int (precision fmt) = int (fraction_bits fmt) + 1"
  by (cases fmt) (simp_all add: fraction_bits_def)

lemma precision_le_53: "(2::int) ^ precision fmt \<le> 2 ^ 53"
  by (cases fmt) simp_all

lemma subnormal_exponent: "emin fmt - int (fraction_bits fmt) \<le> - 1"
  by (cases fmt) (simp_all add: fraction_bits_def)

lemma pow2_int: "pow2 (int n) = 2 ^ n"
  using pow2_nat [of "int n"] by simp

lemma pow2_53: "pow2 53 = 2 ^ 53"
  using pow2_nat [of 53] by simp

lemma pow2_less_cancel: "pow2 a < pow2 b \<Longrightarrow> a < b"
  by (simp add: pow2_def)

lemma rhe_power2: "round_half_even (2 ^ n) = 2 ^ n"
  using rhe_of_int [of "2 ^ n"] by simp

lemma rhe_nonneg: "0 \<le> x \<Longrightarrow> 0 \<le> round_half_even x"
  using rhe_mono [of 0 x] rhe_of_int [of 0] by simp

lemma ulp_exponent_minus: "ulp_exponent fmt (- x) = ulp_exponent fmt x"
  by (simp add: ulp_exponent_def)

lemma round_float_minus: "round_float fmt (- x) = - round_float fmt x"
  by (simp add: round_float_def ulp_exponent_minus rhe_minus)

lemma round_float_nonneg: "0 \<le> x \<Longrightarrow> 0 \<le> round_float fmt x"
  using pow2_pos [of "ulp_exponent fmt x"]
  by (simp add: round_float_def rhe_nonneg)

lemma round_float_zero: "round_float fmt 0 = 0"
  by (simp add: round_float_def)

lemma scaled_less:
  assumes "x \<noteq> 0"
  shows "\<bar>x\<bar> < pow2 (ulp_exponent fmt x + int (precision fmt))"
proof -
  have "\<bar>x\<bar> < pow2 (\<lfloor>log 2 \<bar>x\<bar>\<rfloor> + 1)"
    by (rule ilog2_bounds(2) [OF assms])
  also have "\<dots> \<le> pow2 (ulp_exponent fmt x + int (precision fmt))"
    by (rule pow2_le) (simp add: ulp_exponent_def precision_int)
  finally show ?thesis .
qed

lemma round_upper:
  assumes "0 < x"
  shows "round_float fmt x \<le> pow2 (ulp_exponent fmt x + int (precision fmt))"
proof -
  define u where "u = ulp_exponent fmt x"
  define p where "p = precision fmt"
  have "x < pow2 u * 2 ^ p"
    using scaled_less [of x fmt] assms by (simp add: pow2_add pow2_int u_def p_def)
  then have "x / pow2 u \<le> 2 ^ p"
    using pow2_pos [of u] by (simp add: divide_le_eq mult.commute)
  then have "round_half_even (x / pow2 u) \<le> round_half_even (2 ^ p)"
    by (rule rhe_mono)
  then have "real_of_int (round_half_even (x / pow2 u)) \<le> real_of_int (2 ^ p)"
    unfolding rhe_power2 by (simp only: of_int_le_iff)
  then have "real_of_int (round_half_even (x / pow2 u)) \<le> 2 ^ p"
    by simp
  then have "real_of_int (round_half_even (x / pow2 u)) * pow2 u \<le> 2 ^ p * pow2 u"
    using pow2_pos [of u] by (simp add: mult_le_cancel_right)
  then show ?thesis
    using assms by (simp add: round_float_def pow2_add pow2_int mult.commute u_def p_def)
qed

lemma round_lower:
  assumes "0 < x" and "emin fmt \<le> \<lfloor>log 2 x\<rfloor>"
  shows "pow2 (ulp_exponent fmt x + int (fraction_bits fmt)) \<le> round_float fmt x"
proof -
  define u where "u = ulp_exponent fmt x"
  define f where "f = fraction_bits fmt"
  have e: "u + int f = \<lfloor>log 2 \<bar>x\<bar>\<rfloor>"
    using assms by (simp add: ulp_exponent_def u_def f_def)
  have "pow2 (u + int f) \<le> x"
    unfolding e using ilog2_bounds(1) [of x] assms by simp
  then have "2 ^ f \<le> x / pow2 u"
    using pow2_pos [of u] by (simp add: le_divide_eq pow2_add pow2_int mult.commute)
  then have "round_half_even (2 ^ f) \<le> round_half_even (x / pow2 u)"
    by (rule rhe_mono)
  then have "real_of_int (2 ^ f) \<le> real_of_int (round_half_even (x / pow2 u))"
    unfolding rhe_power2 by (simp only: of_int_le_iff)
  then have "2 ^ f \<le> real_of_int (round_half_even (x / pow2 u))"
    by simp
  then have "2 ^ f * pow2 u \<le> real_of_int (round_half_even (x / pow2 u)) * pow2 u"
    using pow2_pos [of u] by (simp add: mult_le_cancel_right)
  then show ?thesis
    using assms by (simp add: round_float_def pow2_add pow2_int mult.commute u_def f_def)
qed

lemma round_mono_pos:
  assumes "0 < x" and "x \<le> y"
  shows "round_float fmt x \<le> round_float fmt y"
proof -
  have y: "0 < y" using assms by linarith
  have "log 2 x \<le> log 2 y"
    using assms y by simp
  then have fl: "\<lfloor>log 2 x\<rfloor> \<le> \<lfloor>log 2 y\<rfloor>"
    by (rule floor_mono)
  then have le: "ulp_exponent fmt x \<le> ulp_exponent fmt y"
    using assms y by (simp add: ulp_exponent_def)
  show ?thesis
  proof (cases "ulp_exponent fmt x = ulp_exponent fmt y")
    case True
    define u where "u = ulp_exponent fmt y"
    have "x / pow2 u \<le> y / pow2 u"
      using assms(2) pow2_pos [of u] by (simp add: divide_right_mono)
    then have "round_half_even (x / pow2 u) \<le> round_half_even (y / pow2 u)"
      by (rule rhe_mono)
    then have "real_of_int (round_half_even (x / pow2 u)) * pow2 u
        \<le> real_of_int (round_half_even (y / pow2 u)) * pow2 u"
      using pow2_pos [of u] by (simp add: mult_le_cancel_right)
    then show ?thesis
      using assms y True by (simp add: round_float_def u_def)
  next
    case False
    then have lt: "ulp_exponent fmt x + 1 \<le> ulp_exponent fmt y"
      using le by linarith
    have "emin fmt - int (fraction_bits fmt) \<le> ulp_exponent fmt x"
      by (simp add: ulp_exponent_def)
    then have "emin fmt \<le> \<lfloor>log 2 y\<rfloor>"
      using lt y by (simp add: ulp_exponent_def)
    then have "pow2 (ulp_exponent fmt y + int (fraction_bits fmt)) \<le> round_float fmt y"
      using y by (intro round_lower)
    moreover have "round_float fmt x \<le> pow2 (ulp_exponent fmt x + int (precision fmt))"
      using assms(1) by (rule round_upper)
    moreover have "pow2 (ulp_exponent fmt x + int (precision fmt))
        \<le> pow2 (ulp_exponent fmt y + int (fraction_bits fmt))"
      using lt by (intro pow2_le) (simp add: precision_int)
    ultimately show ?thesis by linarith
  qed
qed

lemma round_mono:
  assumes "x \<le> y"
  shows "round_float fmt x \<le> round_float fmt y"
proof -
  consider "0 < x" | "x \<le> 0" "0 \<le> y" | "y < 0" by linarith
  then show ?thesis
  proof cases
    case 1
    then show ?thesis using assms by (rule round_mono_pos)
  next
    case 2
    have "round_float fmt x \<le> 0"
      using round_float_nonneg [of "- x" fmt] 2(1) by (simp add: round_float_minus)
    moreover have "0 \<le> round_float fmt y"
      using 2(2) by (rule round_float_nonneg)
    ultimately show ?thesis by linarith
  next
    case 3
    then have "round_float fmt (- y) \<le> round_float fmt (- x)"
      using assms by (intro round_mono_pos) simp_all
    then show ?thesis by (simp add: round_float_minus)
  qed
qed

lemma round_float_exact:
  assumes "\<bar>m\<bar> < 2 ^ precision fmt" and "emin fmt - int (fraction_bits fmt) \<le> e"
  shows "round_float fmt (real_of_int m * pow2 e) = real_of_int m * pow2 e"
proof (cases "m = 0")
  case True
  then show ?thesis by (simp add: round_float_zero)
next
  case False
  define x where "x = real_of_int m * pow2 e"
  define u where "u = ulp_exponent fmt x"
  define p where "p = precision fmt"
  have x0: "x \<noteq> 0"
    using False pow2_pos [of e] by (simp add: x_def)
  have "real_of_int \<bar>m\<bar> < real_of_int (2 ^ p)"
    using assms(1) unfolding p_def by (simp only: of_int_less_iff)
  then have "\<bar>real_of_int m\<bar> < 2 ^ p"
    by simp
  then have "\<bar>real_of_int m\<bar> * pow2 e < 2 ^ p * pow2 e"
    using pow2_pos [of e] by (simp add: mult_less_cancel_right)
  then have "\<bar>x\<bar> < pow2 (e + int p)"
    using pow2_pos [of e] by (simp add: x_def abs_mult pow2_add pow2_int mult.commute)
  then have "pow2 \<lfloor>log 2 \<bar>x\<bar>\<rfloor> < pow2 (e + int p)"
    using ilog2_bounds(1) [OF x0] by linarith
  then have "\<lfloor>log 2 \<bar>x\<bar>\<rfloor> < e + int p"
    by (rule pow2_less_cancel)
  then have u: "u \<le> e"
    using assms(2) by (simp add: u_def ulp_exponent_def p_def precision_int)
  define k where "k = nat (e - u)"
  have "pow2 e = pow2 (e - u) * pow2 u"
    using pow2_add [of "e - u" u] by simp
  moreover have "pow2 (e - u) = real_of_int (2 ^ k)"
    unfolding k_def using u by (intro pow2_nat) simp
  ultimately have e: "pow2 e = real_of_int (2 ^ k) * pow2 u"
    by simp
  have xk: "x = real_of_int (m * 2 ^ k) * pow2 u"
    by (simp add: x_def e)
  have "x / pow2 u = real_of_int (m * 2 ^ k)"
    unfolding xk using pow2_pos [of u] by simp
  then have "round_half_even (x / pow2 u) = m * 2 ^ k"
    using rhe_of_int [of "m * 2 ^ k"] by simp
  then have "round_float fmt x = real_of_int (m * 2 ^ k) * pow2 u"
    using x0 by (simp add: round_float_def u_def)
  then have "round_float fmt x = x"
    using xk by simp
  then show ?thesis
    unfolding x_def .
qed

lemma round_float_int:
  assumes "\<bar>m\<bar> < 2 ^ precision fmt"
  shows "round_float fmt (real_of_int m) = real_of_int m"
proof -
  have "emin fmt - int (fraction_bits fmt) \<le> 0"
    using subnormal_exponent [of fmt] by linarith
  then show ?thesis
    using round_float_exact [OF assms, of 0] by (simp add: pow2_numeral)
qed

lemma round_float_half:
  assumes "\<bar>m\<bar> < 2 ^ precision fmt"
  shows "round_float fmt (real_of_int m / 2) = real_of_int m / 2"
proof -
  have h: "pow2 (- 1) = 1 / 2"
    by (simp add: pow2_def powr_minus_divide)
  show ?thesis
    using round_float_exact [OF assms subnormal_exponent] unfolding h by simp
qed

lemma round_binary64_int:
  assumes "\<bar>m\<bar> < 2 ^ 53"
  shows "round_binary64 (real_of_int m) = real_of_int m"
  using assms by (intro round_float_int) simp

lemma round_binary64_half:
  assumes "\<bar>m\<bar> < 2 ^ 53"
  shows "round_binary64 (real_of_int m / 2) = real_of_int m / 2"
  using assms by (intro round_float_half) simp

lemma round_binary64_error:
  assumes "pow2 (- 1022) \<le> \<bar>x\<bar>"
  shows "\<bar>round_binary64 x - x\<bar> \<le> \<bar>x\<bar> / 2 ^ 53"
proof -
  define u where "u = ulp_exponent Binary64 x"
  have x0: "x \<noteq> 0"
    using assms pow2_pos [of "- 1022"] by auto
  have "pow2 (- 1022) < pow2 (\<lfloor>log 2 \<bar>x\<bar>\<rfloor> + 1)"
    using assms ilog2_bounds(2) [OF x0] by linarith
  then have "- 1022 < \<lfloor>log 2 \<bar>x\<bar>\<rfloor> + 1"
    by (rule pow2_less_cancel)
  then have e: "u + 52 = \<lfloor>log 2 \<bar>x\<bar>\<rfloor>"
    by (simp add: u_def ulp_exponent_def fraction_bits_def)
  have "pow2 (u + 52) \<le> \<bar>x\<bar>"
    unfolding e by (rule ilog2_bounds(1) [OF x0])
  then have ulp: "pow2 u * 2 ^ 52 \<le> \<bar>x\<bar>"
    using pow2_int [of 52] by (simp add: pow2_add)
  have "round_binary64 x - x
      = (real_of_int (round_half_even (x / pow2 u)) - x / pow2 u) * pow2 u"
    using x0 pow2_pos [of u] by (simp add: round_float_def left_diff_distrib u_def)
  then have "\<bar>round_binary64 x - x\<bar>
      = \<bar>real_of_int (round_half_even (x / pow2 u)) - x / pow2 u\<bar> * pow2 u"
    using pow2_pos [of u] by (simp add: abs_mult)
  also have "\<dots> \<le> 1 / 2 * pow2 u"
    using rhe_error [of "x / pow2 u"] pow2_pos [of u] by (intro mult_right_mono) simp_all
  also have "\<dots> \<le> \<bar>x\<bar> / 2 ^ 53"
    using ulp by simp
  finally show ?thesis .
qed

section \<open>Properties of the waveform projector\<close>

lemma to_float_finite_fmt:
  assumes "\<bar>round_float fmt x\<bar> \<le> 2 ^ precision fmt"
  shows "to_float fmt x = Fin (round_float fmt x)"
proof -
  have "(2::real) ^ precision fmt < pow2 (emax fmt + 1)"
  proof (cases fmt)
    case Binary32
    have "(2::real) ^ 24 < 2 ^ 128"
      by (rule power_strict_increasing) simp_all
    then show ?thesis
      using pow2_int [of 128] by (simp add: Binary32)
  next
    case Binary64
    have "(2::real) ^ 53 < 2 ^ 1024"
      by (rule power_strict_increasing) simp_all
    then show ?thesis
      using pow2_int [of 1024] by (simp add: Binary64)
  qed
  then have "\<not> pow2 (emax fmt + 1) \<le> round_float fmt x"
    "\<not> round_float fmt x \<le> - pow2 (emax fmt + 1)"
    using assms by linarith+
  then show ?thesis
    by (simp only: to_float_def Let_def if_False)
qed

lemma to_float_finite:
  assumes "\<bar>round_binary64 x\<bar> \<le> 2 ^ 53"
  shows "to_float Binary64 x = Fin (round_binary64 x)"
  using assms by (intro to_float_finite_fmt) simp

lemma round_abs_le:
  assumes "\<bar>x\<bar> \<le> real_of_int b / 2" and "\<bar>b\<bar> < 2 ^ precision fmt"
  shows "\<bar>round_float fmt x\<bar> \<le> real_of_int b / 2"
proof -
  have "round_float fmt x \<le> round_float fmt (real_of_int b / 2)"
    using assms(1) by (intro round_mono) linarith
  moreover have "round_float fmt (- (real_of_int b / 2)) \<le> round_float fmt x"
    using assms(1) by (intro round_mono) linarith
  ultimately show ?thesis
    by (simp add: round_float_minus round_float_half [OF assms(2)])
qed

lemma round_abs_le_int:
  assumes "\<bar>x\<bar> \<le> real_of_int b" and "\<bar>b\<bar> < 2 ^ precision fmt"
  shows "\<bar>round_float fmt x\<bar> \<le> real_of_int b"
proof -
  have "round_float fmt x \<le> round_float fmt (real_of_int b)"
    using assms(1) by (intro round_mono) linarith
  moreover have "round_float fmt (- real_of_int b) \<le> round_float fmt x"
    using assms(1) by (intro round_mono) linarith
  ultimately show ?thesis
    by (simp add: round_float_minus round_float_int [OF assms(2)])
qed

lemma round_abs_le_int64:
  assumes "\<bar>x\<bar> \<le> real_of_int b" and "\<bar>b\<bar> < 2 ^ 53"
  shows "\<bar>round_binary64 x\<bar> \<le> real_of_int b"
  using assms by (intro round_abs_le_int) simp_all

lemma int_bound_fmt:
  assumes "\<bar>b\<bar> < 2 ^ precision fmt"
  shows "\<bar>real_of_int b\<bar> \<le> 2 ^ precision fmt"
proof -
  have "real_of_int \<bar>b\<bar> < real_of_int (2 ^ precision fmt)"
    using assms by (simp only: of_int_less_iff)
  then show ?thesis by simp
qed

lemma int_bound_real:
  assumes "\<bar>b\<bar> < 2 ^ 53"
  shows "\<bar>real_of_int b\<bar> \<le> 2 ^ 53"
  using int_bound_fmt [of b Binary64] assms by simp

lemma int_bound_53:
  fixes b :: int
  assumes "\<bar>b\<bar> < 2 ^ precision fmt"
  shows "\<bar>b\<bar> < 2 ^ 53"
  using assms precision_le_53 [of fmt] by linarith

lemma half_height:
  assumes "\<bar>H\<bar> < 2 ^ 53"
  shows "int_truediv H 2 = Inr (Fin (real_of_int H / 2))"
proof -
  have "\<bar>round_binary64 (real_of_int H / 2)\<bar> \<le> 2 ^ 53"
    using int_bound_real [OF assms] by (simp add: round_binary64_half [OF assms])
  then have "to_float Binary64 (real_of_int H / 2) = Fin (real_of_int H / 2)"
    by (simp add: to_float_finite round_binary64_half [OF assms])
  then show ?thesis
    by (simp add: int_truediv_def finite_or_overflow_def)
qed

lemma clamp_unit_bounds: "- 1 \<le> clamp_unit a" "clamp_unit a \<le> 1"
  by (cases a; simp add: clamp_unit_def)+

text \<open>
  The clamped amplitude is the sample itself when it lies strictly between -1 and 1,
  and otherwise one of the Python floats 1.0 and -1.0.
\<close>

lemma clamped_amplitude:
  "py_max (PyScalar (Fin (- 1))) (py_min (PyScalar (Fin 1)) (NpScalar a))
   = (if flt_less (Fin (- 1)) a \<and> flt_less a (Fin 1) then NpScalar (Fin (clamp_unit a))
      else PyScalar (Fin (clamp_unit a)))"
  by (cases a) (auto simp: py_max_def py_min_def clamp_unit_def)

lemma clamp_unit_limit:
  "\<not> (flt_less (Fin (- 1)) a \<and> flt_less a (Fin 1)) \<Longrightarrow> clamp_unit a = 1 \<or> clamp_unit a = - 1"
  by (cases a) (auto simp: clamp_unit_def)

lemma y_value_bound:
  assumes "\<bar>H\<bar> < 2 ^ precision fmt"
  shows "\<bar>round_float fmt (clamp_unit a * (real_of_int H / 2))\<bar> \<le> real_of_int \<bar>H\<bar> / 2"
    and "\<bar>y_value fmt H a\<bar> \<le> real_of_int \<bar>H\<bar>"
proof -
  let ?m = "real_of_int H / 2"
  let ?c = "clamp_unit a"
  let ?A = "\<bar>H\<bar>"
  have A: "\<bar>?A\<bar> < 2 ^ precision fmt" using assms by simp
  have "\<bar>?c\<bar> \<le> 1"
    using clamp_unit_bounds [of a] by linarith
  then have "\<bar>?c * ?m\<bar> \<le> 1 * \<bar>?m\<bar>"
    unfolding abs_mult by (intro mult_right_mono) simp_all
  then have cm: "\<bar>?c * ?m\<bar> \<le> real_of_int ?A / 2"
    by simp
  show t: "\<bar>round_float fmt (?c * ?m)\<bar> \<le> real_of_int ?A / 2"
    using cm A by (rule round_abs_le)
  have "\<bar>?m - round_float fmt (?c * ?m)\<bar> \<le> real_of_int ?A"
    using t by simp
  then show "\<bar>y_value fmt H a\<bar> \<le> real_of_int ?A"
    unfolding y_value_def using A by (rule round_abs_le_int)
qed

lemma y_sample:
  assumes "\<bar>H\<bar> < 2 ^ precision fmt"
  shows "scalar_value (float_sub fmt (Fin (real_of_int H / 2))
           (scalar_mul fmt (NpScalar (Fin (clamp_unit a))) (Fin (real_of_int H / 2))))
         = Fin (y_value fmt H a)"
proof -
  let ?m = "real_of_int H / 2"
  let ?c = "clamp_unit a"
  have A: "\<bar>\<bar>H\<bar>\<bar> < 2 ^ precision fmt" using assms by simp
  have "\<bar>round_float fmt ?m\<bar> \<le> 2 ^ precision fmt"
    using int_bound_fmt [OF assms] by (simp add: round_float_half [OF assms])
  then have conv: "to_float fmt ?m = Fin ?m"
    by (simp add: to_float_finite_fmt round_float_half [OF assms])
  have "\<bar>round_float fmt (?c * ?m)\<bar> \<le> 2 ^ precision fmt"
    using y_value_bound(1) [OF assms, of a] int_bound_fmt [OF A] by simp
  then have mul: "fl_mul fmt (Fin ?c) (Fin ?m) = Fin (round_float fmt (?c * ?m))"
    by (simp add: fl_mul_def to_float_finite_fmt)
  have "\<bar>y_value fmt H a\<bar> \<le> 2 ^ precision fmt"
    using y_value_bound(2) [OF assms, of a] int_bound_fmt [OF A] by simp
  then have "fl_sub fmt (Fin ?m) (Fin (round_float fmt (?c * ?m))) = Fin (y_value fmt H a)"
    unfolding y_value_def by (simp add: fl_sub_def to_float_finite_fmt)
  then show ?thesis
    by (simp add: conv mul)
qed

lemma y_limit:
  assumes "\<bar>H\<bar> < 2 ^ precision fmt" and "clamp_unit a = 1 \<or> clamp_unit a = - 1"
  shows "scalar_value (float_sub fmt (Fin (real_of_int H / 2))
           (scalar_mul fmt (PyScalar (Fin (clamp_unit a))) (Fin (real_of_int H / 2))))
         = Fin (y_value fmt H a)"
proof -
  let ?m = "real_of_int H / 2"
  have h64: "\<bar>H\<bar> < 2 ^ 53"
    using assms(1) by (rule int_bound_53)
  have m64: "round_binary64 ?m = ?m" "round_binary64 (- ?m) = - ?m"
    using round_binary64_half [OF h64] by (simp_all add: round_float_minus)
  have mf: "round_float fmt ?m = ?m" "round_float fmt (- ?m) = - ?m"
    using round_float_half [OF assms(1)] by (simp_all add: round_float_minus)
  have i64: "round_binary64 (real_of_int H) = real_of_int H"
    using h64 by (rule round_binary64_int)
  have "if": "round_float fmt (real_of_int H) = real_of_int H"
    using assms(1) by (rule round_float_int)
  have b: "\<bar>real_of_int H\<bar> \<le> 2 ^ 53"
    using h64 by (rule int_bound_real)
  show ?thesis
  proof (cases "clamp_unit a = 1")
    case True
    have "fl_mul Binary64 (Fin 1) (Fin ?m) = Fin ?m"
      using b by (simp add: fl_mul_def to_float_finite m64)
    moreover have "fl_sub Binary64 (Fin ?m) (Fin ?m) = Fin 0"
      by (simp add: fl_sub_def to_float_finite round_float_zero)
    moreover have "y_value fmt H a = 0"
      by (simp add: y_value_def True mf round_float_zero)
    ultimately show ?thesis
      by (simp add: True)
  next
    case False
    then have c: "clamp_unit a = - 1"
      using assms(2) by simp
    have "fl_mul Binary64 (Fin (- 1)) (Fin ?m) = Fin (- ?m)"
      using b by (simp add: fl_mul_def to_float_finite m64)
    moreover have "fl_sub Binary64 (Fin ?m) (Fin (- ?m)) = Fin (real_of_int H)"
      using b by (simp add: fl_sub_def to_float_finite i64)
    moreover have "y_value fmt H a = real_of_int H"
      by (simp add: y_value_def c mf "if")
    ultimately show ?thesis
      by (simp add: c)
  qed
qed

lemma y_coordinate:
  assumes "\<bar>H\<bar> < 2 ^ precision fmt"
  shows "py_int (PyFloat (scalar_value (float_sub fmt (Fin (real_of_int H / 2))
           (scalar_mul fmt (py_max (PyScalar (Fin (- 1))) (py_min (PyScalar (Fin 1)) (NpScalar a)))
              (Fin (real_of_int H / 2))))))
         = Inr (truncate (y_value fmt H a))"
    and "\<bar>y_value fmt H a\<bar> \<le> \<bar>real_of_int H\<bar>"
proof -
  show "\<bar>y_value fmt H a\<bar> \<le> \<bar>real_of_int H\<bar>"
    using y_value_bound(2) [OF assms, of a] by simp
  show "py_int (PyFloat (scalar_value (float_sub fmt (Fin (real_of_int H / 2))
           (scalar_mul fmt (py_max (PyScalar (Fin (- 1))) (py_min (PyScalar (Fin 1)) (NpScalar a)))
              (Fin (real_of_int H / 2))))))
         = Inr (truncate (y_value fmt H a))"
  proof (cases "flt_less (Fin (- 1)) a \<and> flt_less a (Fin 1)")
    case True
    have cl: "py_max (PyScalar (Fin (- 1))) (py_min (PyScalar (Fin 1)) (NpScalar a))
        = NpScalar (Fin (clamp_unit a))"
      using True by (simp add: clamped_amplitude)
    show ?thesis
      unfolding cl y_sample [OF assms] by simp
  next
    case False
    have cl: "py_max (PyScalar (Fin (- 1))) (py_min (PyScalar (Fin 1)) (NpScalar a))
        = PyScalar (Fin (clamp_unit a))"
      using False by (simp only: clamped_amplitude if_False)
    show ?thesis
      unfolding cl y_limit [OF assms clamp_unit_limit [OF False]] by simp
  qed
qed

lemma pow2_tiny: "pow2 (- 1022) \<le> 1 / 2 ^ 53"
proof -
  have "pow2 (- 1022) \<le> pow2 (- 53)"
    by (rule pow2_le) simp
  moreover have "pow2 (- 53) = 1 / 2 ^ 53"
    using pow2_diff [of 0 53] by (simp add: pow2_numeral pow2_53)
  ultimately show ?thesis by simp
qed

lemma pow2_tiny': "pow2 (- 1022) \<le> 1 / 2 ^ 54"
proof -
  have "pow2 (- 1022) \<le> pow2 (- 54)"
    by (rule pow2_le) simp
  moreover have "pow2 (- 54) = 1 / 2 ^ 54"
    using pow2_diff [of 0 54] pow2_nat [of 54] by (simp add: pow2_numeral)
  ultimately show ?thesis by simp
qed

lemma index_error:
  fixes W :: int and n i :: nat
  assumes "0 \<le> W" and "W \<le> 2 ^ 51" and "1 \<le> n" and "n < 2 ^ 53" and "i \<le> n"
  shows "\<bar>round_binary64 (real i * round_binary64 (real_of_int W / real n))
          - real i * (real_of_int W / real n)\<bar> < 1"
proof (cases "i = 0 \<or> W = 0")
  case True
  then show ?thesis
    by (auto simp: round_float_zero)
next
  case False
  define w where "w = real_of_int W"
  define r where "r = real n"
  define k where "k = real i"
  define v where "v = w / r"
  define q where "q = round_binary64 v"
  define t where "t = k * v"
  define p where "p = k * q"
  have w: "1 \<le> w" "w \<le> 2251799813685248"
  proof -
    show "1 \<le> w" using assms(1) False by (simp add: w_def)
    have "real_of_int W \<le> real_of_int (2 ^ 51)"
      using assms(2) by (simp only: of_int_le_iff)
    then show "w \<le> 2251799813685248" by (simp add: w_def)
  qed
  have r: "1 \<le> r" "r < 9007199254740992"
  proof -
    show "1 \<le> r" using assms(3) by (simp add: r_def)
    have "real n < real (2 ^ 53)"
      using assms(4) by (simp only: of_nat_less_iff)
    then show "r < 9007199254740992" by (simp add: r_def)
  qed
  have k: "1 \<le> k" "k \<le> r"
    using False assms(5) by (simp_all add: k_def r_def)
  have pt: "pow2 (- 1022) \<le> 1 / 9007199254740992"
    using pow2_tiny by simp
  have pt': "pow2 (- 1022) \<le> 1 / 18014398509481984"
    using pow2_tiny' by simp
  have "1 / 9007199254740992 \<le> 1 / r"
    using r by (intro divide_left_mono) simp_all
  also have "1 / r \<le> w / r"
    using w r by (intro divide_right_mono) simp_all
  finally have vlo: "1 / 9007199254740992 \<le> v"
    by (simp add: v_def)
  have rv: "r * v = w"
    using r by (simp add: v_def)
  have "pow2 (- 1022) \<le> \<bar>v\<bar>"
    using vlo pt by linarith
  then have "\<bar>q - v\<bar> \<le> \<bar>v\<bar> / 2 ^ 53"
    unfolding q_def by (rule round_binary64_error)
  then have "\<bar>q - v\<bar> \<le> v / 9007199254740992"
    using vlo by simp
  then have a: "k * \<bar>q - v\<bar> \<le> k * (v / 9007199254740992)"
    using k by (intro mult_left_mono) simp_all
  have "k * (q - v) = p - t"
    by (simp add: p_def t_def right_diff_distrib)
  then have "\<bar>p - t\<bar> = \<bar>k * (q - v)\<bar>"
    by simp
  also have "\<dots> = k * \<bar>q - v\<bar>"
    using k by (simp add: abs_mult)
  also have "\<dots> \<le> k * (v / 9007199254740992)"
    by (rule a)
  also have "\<dots> = t / 9007199254740992"
    by (simp add: t_def)
  finally have e1: "\<bar>p - t\<bar> \<le> t / 9007199254740992" .
  have "1 * v \<le> k * v"
    using k vlo by (intro mult_right_mono) simp_all
  then have tlo: "1 / 9007199254740992 \<le> t"
    using vlo unfolding t_def by linarith
  have "k * v \<le> r * v"
    using k vlo by (intro mult_right_mono) simp_all
  then have thi: "t \<le> 2251799813685248"
    using w unfolding t_def rv by linarith
  have lo: "1 / 18014398509481984 \<le> p"
    using e1 tlo by linarith
  have hi: "\<bar>p\<bar> \<le> t + t / 9007199254740992"
    using e1 tlo by linarith
  have "pow2 (- 1022) \<le> \<bar>p\<bar>"
    using lo pt' by linarith
  then have "\<bar>round_binary64 p - p\<bar> \<le> \<bar>p\<bar> / 2 ^ 53"
    by (rule round_binary64_error)
  then have e2: "\<bar>round_binary64 p - p\<bar> \<le> \<bar>p\<bar> / 9007199254740992"
    by simp
  have "\<bar>round_binary64 p - t\<bar> < 1"
    using e1 e2 hi tlo thi by linarith
  then show ?thesis
    unfolding p_def q_def t_def v_def w_def r_def k_def .
qed

lemma scale_error:
  fixes W :: int and n :: nat
  assumes "1 \<le> W" and "W \<le> 2 ^ 51" and "1 \<le> n" and "n < 2 ^ 53"
  shows "\<bar>round_binary64 (real n * round_binary64 (real_of_int W / real n)) - real_of_int W\<bar> < 1"
proof -
  have "real n * (real_of_int W / real n) = real_of_int W"
    using assms(3) by simp
  moreover have "0 \<le> W"
    using assms(1) by simp
  ultimately show ?thesis
    using index_error [of W n n] assms(2,3,4) by simp
qed

lemma truncate_nonneg: "0 \<le> r \<Longrightarrow> truncate r = \<lfloor>r\<rfloor>"
  by (simp add: truncate_def)

lemma nat_bound_real:
  assumes "n \<le> 2 ^ 53"
  shows "real n \<le> 2 ^ 53"
proof -
  have "real n \<le> real (2 ^ 53)"
    using assms by (simp only: of_nat_le_iff)
  then show ?thesis by simp
qed

lemma x_scale_value:
  assumes "0 \<le> W" and "W \<le> 2 ^ 51" and "1 < N"
  shows "int_truediv W (int N - 1) = Inr (Fin (round_binary64 (real_of_int W / real (N - 1))))"
    and "0 \<le> round_binary64 (real_of_int W / real (N - 1))"
proof -
  let ?q = "round_binary64 (real_of_int W / real (N - 1))"
  have b: "\<bar>W\<bar> < 2 ^ 53"
    using assms(1,2) by simp
  have n: "1 \<le> real (N - 1)"
    using assms(3) by simp
  have "0 \<le> real_of_int W / real (N - 1)"
    using assms(1) by simp
  then show q0: "0 \<le> ?q"
    by (rule round_float_nonneg)
  have "real_of_int W / real (N - 1) \<le> real_of_int W / 1"
    using assms(1) n by (intro divide_left_mono) simp_all
  then have "\<bar>real_of_int W / real (N - 1)\<bar> \<le> real_of_int W"
    using assms(1) by simp
  then have "\<bar>?q\<bar> \<le> real_of_int W"
    using b by (rule round_abs_le_int64)
  then have "\<bar>?q\<bar> \<le> 2 ^ 53"
    using int_bound_real [OF b] by linarith
  then have tf: "to_float Binary64 (real_of_int W / real (N - 1)) = Fin ?q"
    by (rule to_float_finite)
  have d: "real_of_int (int N - 1) = real (N - 1)"
    using assms(3) by simp
  have ne: "int N - 1 \<noteq> 0"
    using assms(3) by simp
  show "int_truediv W (int N - 1) = Inr (Fin ?q)"
    unfolding int_truediv_def d tf finite_or_overflow_def using ne by simp
qed

lemma x_value_bounds:
  assumes "0 \<le> W" and "W \<le> 2 ^ 51" and "1 < N" and "N \<le> 2 ^ 53" and "i < N"
  shows "0 \<le> x_value W N i" and "x_value W N i < real_of_int W + 1"
proof -
  let ?q = "round_binary64 (real_of_int W / real (N - 1))"
  have q0: "0 \<le> ?q"
    using assms(1,2,3) by (rule x_scale_value(2))
  then have "0 \<le> real i * ?q"
    by simp
  then show "0 \<le> x_value W N i"
    unfolding x_value_def by (rule round_float_nonneg)
  have "real i \<le> real (N - 1)"
    using assms(5) by simp
  then have "real i * ?q \<le> real (N - 1) * ?q"
    using q0 by (rule mult_right_mono)
  then have le: "x_value W N i \<le> round_binary64 (real (N - 1) * ?q)"
    unfolding x_value_def by (rule round_mono)
  show "x_value W N i < real_of_int W + 1"
  proof (cases "W = 0")
    case True
    then show ?thesis
      using le by (simp add: round_float_zero)
  next
    case False
    then have "1 \<le> W" using assms(1) by simp
    moreover have "1 \<le> N - 1" "N - 1 < 2 ^ 53"
      using assms(3,4) by linarith+
    ultimately have "\<bar>round_binary64 (real (N - 1) * ?q) - real_of_int W\<bar> < 1"
      using assms(2) by (intro scale_error)
    then show ?thesis
      using le by linarith
  qed
qed

lemma x_coordinate:
  assumes "0 \<le> W" and "W \<le> 2 ^ 51" and "1 < N" and "N \<le> 2 ^ 53" and "i < N"
  shows "bind_err (int_mul (int i) (PyFloat (Fin (round_binary64 (real_of_int W / real (N - 1)))))) py_int
         = Inr (spec_x W N i)"
proof -
  let ?q = "round_binary64 (real_of_int W / real (N - 1))"
  have "int i < int (2 ^ 53)"
    using assms(4,5) by (simp only: of_nat_less_iff)
  then have i: "\<bar>int i\<bar> < 2 ^ 53"
    by simp
  have "\<bar>round_binary64 (real_of_int (int i))\<bar> \<le> 2 ^ 53"
    using int_bound_real [OF i] by (simp only: round_binary64_int [OF i])
  then have "to_float Binary64 (real_of_int (int i)) = Fin (real i)"
    using round_binary64_int [OF i] by (simp add: to_float_finite)
  then have conv: "int_to_float (int i) = Inr (Fin (real i))"
    by (simp add: int_to_float_def finite_or_overflow_def)
  note xb = x_value_bounds [OF assms]
  have "real_of_int W \<le> real_of_int (2 ^ 51)"
    using assms(2) by (simp only: of_int_le_iff)
  then have "x_value W N i < 2 ^ 53"
    using xb(2) by simp
  then have "\<bar>round_binary64 (real i * ?q)\<bar> \<le> 2 ^ 53"
    using xb(1) by (simp add: x_value_def)
  then have "to_float Binary64 (real i * ?q) = Fin (x_value W N i)"
    unfolding x_value_def by (rule to_float_finite)
  then have "fl_mul Binary64 (Fin (real i)) (Fin ?q) = Fin (x_value W N i)"
    by (simp add: fl_mul_def)
  then show ?thesis
    using xb(1) by (simp add: conv bind_err_def spec_x_def truncate_nonneg)
qed

lemma first_x: "spec_x W N 0 = 0"
  by (simp add: spec_x_def x_value_def round_float_zero)

lemma last_x:
  assumes "0 \<le> W" and "W \<le> 2 ^ 51" and "1 < N" and "N \<le> 2 ^ 53"
  shows "spec_x W N (N - 1) = W \<or> spec_x W N (N - 1) = W - 1"
proof (cases "W = 0")
  case True
  then show ?thesis
    by (simp add: spec_x_def x_value_def round_float_zero)
next
  case False
  let ?q = "round_binary64 (real_of_int W / real (N - 1))"
  have "1 \<le> W" using False assms(1) by simp
  moreover have "1 \<le> N - 1" "N - 1 < 2 ^ 53"
    using assms(3,4) by linarith+
  ultimately have "\<bar>round_binary64 (real (N - 1) * ?q) - real_of_int W\<bar> < 1"
    using assms(2) by (intro scale_error)
  then have "real_of_int (W - 1) < x_value W N (N - 1)" "x_value W N (N - 1) < real_of_int (W + 1)"
    by (simp_all add: x_value_def)
  then have "W - 1 \<le> spec_x W N (N - 1)" "spec_x W N (N - 1) < W + 1"
    unfolding spec_x_def by (simp_all only: le_floor_iff floor_less_iff)
  then show ?thesis by linarith
qed


lemma bind_err_Inr: "bind_err (Inr v) f = f v"
  by (simp add: bind_err_def)

lemma waveform_loop_points:
  assumes "\<And>j. j < length rest \<Longrightarrow>
     waveform_point fmt xs cy ma (i + j) (rest ! j) = Inr (f (i + j) (rest ! j))"
  shows "waveform_loop fmt xs cy ma i rest points
         = Inr (points @ map (\<lambda>j. f (i + j) (rest ! j)) [0..<length rest])"
  using assms
proof (induction rest arbitrary: i points)
  case Nil
  then show ?case by simp
next
  case (Cons a rest)
  have hd: "waveform_point fmt xs cy ma i a = Inr (f i a)"
    using Cons.prems [of 0] by simp
  have tl: "waveform_point fmt xs cy ma (Suc i + j) (rest ! j) = Inr (f (Suc i + j) (rest ! j))"
    if "j < length rest" for j
    using Cons.prems [of "Suc j"] that by simp
  have "map (\<lambda>j. f (i + j) ((a # rest) ! j)) [0..<length (a # rest)]
      = f i a # map (\<lambda>j. f (Suc i + j) (rest ! j)) [0..<length rest]"
    by (simp add: upt_conv_Cons map_Suc_upt [symmetric] del: upt_Suc)
  then show ?case
    using Cons.IH [OF tl] by (simp add: hd bind_err_def)
qed

lemma y_value_nonneg:
  assumes "0 \<le> H" and "H < 2 ^ precision fmt"
  shows "0 \<le> y_value fmt H a"
proof -
  have h: "\<bar>H\<bar> < 2 ^ precision fmt"
    using assms by simp
  have "clamp_unit a * (real_of_int H / 2) \<le> 1 * (real_of_int H / 2)"
    using clamp_unit_bounds(2) [of a] assms(1) by (intro mult_right_mono) simp_all
  then have "round_float fmt (clamp_unit a * (real_of_int H / 2)) \<le> round_float fmt (real_of_int H / 2)"
    by (intro round_mono) simp
  then have "0 \<le> real_of_int H / 2 - round_float fmt (clamp_unit a * (real_of_int H / 2))"
    by (simp add: round_float_half [OF h])
  then show ?thesis
    unfolding y_value_def by (rule round_float_nonneg)
qed

lemma spec_y_range:
  assumes "0 \<le> H" and "H < 2 ^ precision fmt"
  shows "0 \<le> spec_y fmt H a" and "spec_y fmt H a \<le> H"
proof -
  have h: "\<bar>H\<bar> < 2 ^ precision fmt"
    using assms by simp
  show "0 \<le> spec_y fmt H a"
    using y_value_nonneg [OF assms, of a] by (simp add: spec_y_def)
  have "y_value fmt H a \<le> real_of_int H"
    using y_coordinate(2) [OF h, of a] assms(1) by simp
  then show "spec_y fmt H a \<le> H"
    unfolding spec_y_def by (simp add: floor_le_iff)
qed

lemma generate_points_eq:
  assumes "1 < length dc" and "length dc \<le> 2 ^ 53"
    and "0 \<le> W" and "W \<le> 2 ^ 51" and "0 \<le> H" and "H < 2 ^ precision fmt"
  shows "generate_waveform_points fmt dc W H
         = Inr (map (\<lambda>i. (spec_x W (length dc) i, spec_y fmt H (dc ! i))) [0..<length dc])"
proof -
  let ?N = "length dc"
  let ?q = "round_binary64 (real_of_int W / real (?N - 1))"
  let ?m = "Fin (real_of_int H / 2)"
  have h: "\<bar>H\<bar> < 2 ^ precision fmt"
    using assms(5,6) by simp
  have half: "int_truediv H 2 = Inr ?m"
    using int_bound_53 [OF h] by (rule half_height)
  have scale: "int_truediv W (int ?N - 1) = Inr (Fin ?q)"
    using assms(3,4,1) by (rule x_scale_value(1))
  have point: "waveform_point fmt (PyFloat (Fin ?q)) ?m ?m (0 + j) (dc ! j)
      = Inr (spec_x W ?N (0 + j), spec_y fmt H (dc ! j))" if "j < ?N" for j
    using x_coordinate [OF assms(3,4,1,2) that] y_coordinate(1) [OF h, of "dc ! j"]
      y_value_nonneg [OF assms(5,6), of "dc ! j"]
    by (simp add: waveform_point_def bind_err_def spec_y_def truncate_nonneg)
  have loop: "waveform_loop fmt (PyFloat (Fin ?q)) ?m ?m 0 dc []
      = Inr ([] @ map (\<lambda>j. (spec_x W ?N (0 + j), spec_y fmt H (dc ! j))) [0..<?N])"
    using point by (rule waveform_loop_points)
  have ne: "?N \<noteq> 0" "?N \<noteq> 1" "1 < ?N"
    using assms(1) by auto
  let ?pts = "map (\<lambda>j. (spec_x W ?N (0 + j), spec_y fmt H (dc ! j))) [0..<?N]"
  have "generate_waveform_points fmt dc W H
      = Inr (if length ([] @ ?pts) = 1 then ([] @ ?pts) @ [([] @ ?pts) ! 0] else [] @ ?pts)"
    by (simp only: generate_waveform_points_def Let_def half bind_err_Inr ne if_True if_False
        scale loop)
  then show ?thesis
    using ne by simp
qed

lemma round_float_eval:
  fixes e :: nat
  assumes "2 ^ e \<le> \<bar>x\<bar>" and "\<bar>x\<bar> < 2 * 2 ^ e" and "e \<le> fraction_bits fmt"
  shows "round_float fmt x
         = real_of_int (round_half_even (x * 2 ^ (fraction_bits fmt - e))) / 2 ^ (fraction_bits fmt - e)"
proof -
  define f where "f = fraction_bits fmt"
  have p: "pow2 (int e) = 2 ^ e"
    by (rule pow2_int)
  have "pow2 (int e + 1) = 2 * 2 ^ e"
    using pow2_int [of "Suc e"] by (simp add: add.commute)
  then have "\<lfloor>log 2 \<bar>x\<bar>\<rfloor> = int e"
    using assms(1,2) p by (intro ilog2_eqI) simp_all
  moreover have "emin fmt \<le> int e"
    by (cases fmt) simp_all
  ultimately have u: "ulp_exponent fmt x = - int (f - e)"
    using assms(3) by (simp add: ulp_exponent_def f_def)
  have "pow2 (0 - int (f - e)) = pow2 0 / pow2 (int (f - e))"
    by (rule pow2_diff)
  then have s: "pow2 (- int (f - e)) = 1 / 2 ^ (f - e)"
    by (simp add: pow2_numeral pow2_int)
  have "(0::real) < 2 ^ e"
    by simp
  then have "x \<noteq> 0"
    using assms(1) by linarith
  then show ?thesis
    by (simp add: round_float_def u s f_def [symmetric])
qed

lemma round_binary64_eval:
  fixes e :: nat
  assumes "2 ^ e \<le> \<bar>x\<bar>" and "\<bar>x\<bar> < 2 * 2 ^ e" and "e \<le> 52"
  shows "round_binary64 x = real_of_int (round_half_even (x * 2 ^ (52 - e))) / 2 ^ (52 - e)"
  using round_float_eval [of e x Binary64] assms by (simp add: fraction_bits_def)

lemma round_binary32_eval:
  fixes e :: nat
  assumes "2 ^ e \<le> \<bar>x\<bar>" and "\<bar>x\<bar> < 2 * 2 ^ e" and "e \<le> 23"
  shows "round_float Binary32 x = real_of_int (round_half_even (x * 2 ^ (23 - e))) / 2 ^ (23 - e)"
  using round_float_eval [of e x Binary32] assms by (simp add: fraction_bits_def)

lemma x_scale_1000_19: "round_binary64 (1000 / 19) = 7407236229227789 / 140737488355328"
  by (subst round_binary64_eval [where e = 5]) (simp_all add: round_half_even_def)

lemma spec_x_1000_20:
  shows "spec_x 1000 20 1 = 52"
    and "spec_x 1000 20 2 = 105"
    and "spec_x 1000 20 3 = 157"
    and "spec_x 1000 20 4 = 210"
    and "spec_x 1000 20 5 = 263"
    and "spec_x 1000 20 6 = 315"
    and "spec_x 1000 20 7 = 368"
    and "spec_x 1000 20 8 = 421"
    and "spec_x 1000 20 9 = 473"
    and "spec_x 1000 20 10 = 526"
    and "spec_x 1000 20 11 = 578"
    and "spec_x 1000 20 12 = 631"
    and "spec_x 1000 20 13 = 684"
    and "spec_x 1000 20 14 = 736"
    and "spec_x 1000 20 15 = 789"
    and "spec_x 1000 20 16 = 842"
    and "spec_x 1000 20 17 = 894"
    and "spec_x 1000 20 18 = 947"
    and "spec_x 1000 20 19 = 999"
proof -
  have x1: "x_value 1000 20 1 = 7407236229227789 / 140737488355328"
    by (simp add: x_value_def x_scale_1000_19, subst round_binary64_eval [where e = 5],
        simp_all add: round_half_even_def)
  have x2: "x_value 1000 20 2 = 7407236229227789 / 70368744177664"
    by (simp add: x_value_def x_scale_1000_19, subst round_binary64_eval [where e = 6],
        simp_all add: round_half_even_def)
  have x3: "x_value 1000 20 3 = 2777713585960421 / 17592186044416"
    by (simp add: x_value_def x_scale_1000_19, subst round_binary64_eval [where e = 7],
        simp_all add: round_half_even_def)
  have x4: "x_value 1000 20 4 = 7407236229227789 / 35184372088832"
    by (simp add: x_value_def x_scale_1000_19, subst round_binary64_eval [where e = 7],
        simp_all add: round_half_even_def)
  have x5: "x_value 1000 20 5 = 578690330408421 / 2199023255552"
    by (simp add: x_value_def x_scale_1000_19, subst round_binary64_eval [where e = 8],
        simp_all add: round_half_even_def)
  have x6: "x_value 1000 20 6 = 2777713585960421 / 8796093022208"
    by (simp add: x_value_def x_scale_1000_19, subst round_binary64_eval [where e = 8],
        simp_all add: round_half_even_def)
  have x7: "x_value 1000 20 7 = 6481331700574315 / 17592186044416"
    by (simp add: x_value_def x_scale_1000_19, subst round_binary64_eval [where e = 8],
        simp_all add: round_half_even_def)
  have x8: "x_value 1000 20 8 = 7407236229227789 / 17592186044416"
    by (simp add: x_value_def x_scale_1000_19, subst round_binary64_eval [where e = 8],
        simp_all add: round_half_even_def)
  have x9: "x_value 1000 20 9 = 8333140757881263 / 17592186044416"
    by (simp add: x_value_def x_scale_1000_19, subst round_binary64_eval [where e = 8],
        simp_all add: round_half_even_def)
  have x10: "x_value 1000 20 10 = 578690330408421 / 1099511627776"
    by (simp add: x_value_def x_scale_1000_19, subst round_binary64_eval [where e = 9],
        simp_all add: round_half_even_def)
  have x11: "x_value 1000 20 11 = 5092474907594105 / 8796093022208"
    by (simp add: x_value_def x_scale_1000_19, subst round_binary64_eval [where e = 9],
        simp_all add: round_half_even_def)
  have x12: "x_value 1000 20 12 = 2777713585960421 / 4398046511104"
    by (simp add: x_value_def x_scale_1000_19, subst round_binary64_eval [where e = 9],
        simp_all add: round_half_even_def)
  have x13: "x_value 1000 20 13 = 6018379436247579 / 8796093022208"
    by (simp add: x_value_def x_scale_1000_19, subst round_binary64_eval [where e = 9],
        simp_all add: round_half_even_def)
  have x14: "x_value 1000 20 14 = 6481331700574315 / 8796093022208"
    by (simp add: x_value_def x_scale_1000_19, subst round_binary64_eval [where e = 9],
        simp_all add: round_half_even_def)
  have x15: "x_value 1000 20 15 = 1736070991225263 / 2199023255552"
    by (simp add: x_value_def x_scale_1000_19, subst round_binary64_eval [where e = 9],
        simp_all add: round_half_even_def)
  have x16: "x_value 1000 20 16 = 7407236229227789 / 8796093022208"
    by (simp add: x_value_def x_scale_1000_19, subst round_binary64_eval [where e = 9],
        simp_all add: round_half_even_def)
  have x17: "x_value 1000 20 17 = 3935094246777263 / 4398046511104"
    by (simp add: x_value_def x_scale_1000_19, subst round_binary64_eval [where e = 9],
        simp_all add: round_half_even_def)
  have x18: "x_value 1000 20 18 = 8333140757881263 / 8796093022208"
    by (simp add: x_value_def x_scale_1000_19, subst round_binary64_eval [where e = 9],
        simp_all add: round_half_even_def)
  have x19: "x_value 1000 20 19 = 8796093022207999 / 8796093022208"
    by (simp add: x_value_def x_scale_1000_19, subst round_binary64_eval [where e = 9],
        simp_all add: round_half_even_def)
  show "spec_x 1000 20 1 = 52"
    unfolding spec_x_def x1 by simp
  show "spec_x 1000 20 2 = 105"
    unfolding spec_x_def x2 by simp
  show "spec_x 1000 20 3 = 157"
    unfolding spec_x_def x3 by simp
  show "spec_x 1000 20 4 = 210"
    unfolding spec_x_def x4 by simp
  show "spec_x 1000 20 5 = 263"
    unfolding spec_x_def x5 by simp
  show "spec_x 1000 20 6 = 315"
    unfolding spec_x_def x6 by simp
  show "spec_x 1000 20 7 = 368"
    unfolding spec_x_def x7 by simp
  show "spec_x 1000 20 8 = 421"
    unfolding spec_x_def x8 by simp
  show "spec_x 1000 20 9 = 473"
    unfolding spec_x_def x9 by simp
  show "spec_x 1000 20 10 = 526"
    unfolding spec_x_def x10 by simp
  show "spec_x 1000 20 11 = 578"
    unfolding spec_x_def x11 by simp
  show "spec_x 1000 20 12 = 631"
    unfolding spec_x_def x12 by simp
  show "spec_x 1000 20 13 = 684"
    unfolding spec_x_def x13 by simp
  show "spec_x 1000 20 14 = 736"
    unfolding spec_x_def x14 by simp
  show "spec_x 1000 20 15 = 789"
    unfolding spec_x_def x15 by simp
  show "spec_x 1000 20 16 = 842"
    unfolding spec_x_def x16 by simp
  show "spec_x 1000 20 17 = 894"
    unfolding spec_x_def x17 by simp
  show "spec_x 1000 20 18 = 947"
    unfolding spec_x_def x18 by simp
  show "spec_x 1000 20 19 = 999"
    unfolding spec_x_def x19 by simp
qed


lemma floor_close:
  fixes a b :: real
  assumes "\<bar>a - b\<bar> < 1"
  shows "\<bar>\<lfloor>a\<rfloor> - \<lfloor>b\<rfloor>\<bar> \<le> 1"
proof -
  have "real_of_int \<lfloor>a\<rfloor> \<le> a" "a < real_of_int \<lfloor>a\<rfloor> + 1"
    "real_of_int \<lfloor>b\<rfloor> \<le> b" "b < real_of_int \<lfloor>b\<rfloor> + 1"
    by linarith+
  then have "real_of_int \<lfloor>a\<rfloor> - real_of_int \<lfloor>b\<rfloor> < 2"
    "- 2 < real_of_int \<lfloor>a\<rfloor> - real_of_int \<lfloor>b\<rfloor>"
    using assms by linarith+
  then have "real_of_int (\<lfloor>a\<rfloor> - \<lfloor>b\<rfloor>) < real_of_int 2"
    "real_of_int (- 2) < real_of_int (\<lfloor>a\<rfloor> - \<lfloor>b\<rfloor>)"
    by simp_all
  then have "\<lfloor>a\<rfloor> - \<lfloor>b\<rfloor> < 2" "- 2 < \<lfloor>a\<rfloor> - \<lfloor>b\<rfloor>"
    by (simp_all only: of_int_less_iff)
  then show ?thesis by linarith
qed

lemma waveform_loop_length:
  "waveform_loop fmt xs cy ma i rest points = Inr pts \<Longrightarrow> length pts = length points + length rest"
proof (induction rest arbitrary: i points)
  case Nil
  then show ?case by simp
next
  case (Cons a rest)
  then obtain p where "waveform_loop fmt xs cy ma (Suc i) rest (points @ [p]) = Inr pts"
    by (auto simp: bind_err_def split: sum.splits)
  then have "length pts = length (points @ [p]) + length rest"
    by (rule Cons.IH)
  then show ?case by simp
qed

lemma generate_length:
  assumes "generate_waveform_points fmt dc W H = Inr pts" and "dc \<noteq> []"
  shows "length pts = max 2 (length dc)"
proof -
  obtain xs cy ma points where loop: "waveform_loop fmt xs cy ma 0 dc [] = Inr points"
    and pts: "pts = (if length points = 1 then points @ [points ! 0] else points)"
    using assms by (auto simp: generate_waveform_points_def Let_def bind_err_def split: sum.splits if_splits)
  have len: "length points = length dc"
    using waveform_loop_length [OF loop] by simp
  have pos: "1 \<le> length dc"
    using assms(2) by (cases dc) simp_all
  show ?thesis
  proof (cases "length dc = 1")
    case True
    then show ?thesis
      unfolding pts using len by simp
  next
    case False
    then have "2 \<le> length dc"
      using pos by linarith
    then show ?thesis
      unfolding pts using len False by (simp add: max_def)
  qed
qed

lemma single_sample:
  assumes "\<bar>H\<bar> < 2 ^ precision fmt"
  shows "generate_waveform_points fmt [a] W H
         = Inr [(0, truncate (y_value fmt H a)), (0, truncate (y_value fmt H a))]"
proof -
  let ?m = "Fin (real_of_int H / 2)"
  have half: "int_truediv H 2 = Inr ?m"
    using int_bound_53 [OF assms] by (rule half_height)
  have "waveform_point fmt (PyInt W) ?m ?m 0 a = Inr (0, truncate (y_value fmt H a))"
    using y_coordinate(1) [OF assms, of a] by (simp add: waveform_point_def bind_err_def)
  then have "waveform_loop fmt (PyInt W) ?m ?m 0 [a] [] = Inr [(0, truncate (y_value fmt H a))]"
    by (simp add: bind_err_def)
  then show ?thesis
    by (simp add: generate_waveform_points_def Let_def half bind_err_def)
qed

lemma spec_y_silence:
  assumes "0 \<le> H" and "H < 2 ^ precision fmt"
  shows "spec_y fmt H (Fin 0) = \<lfloor>real_of_int H / 2\<rfloor>"
proof -
  have "\<bar>H\<bar> < 2 ^ precision fmt" using assms by simp
  then show ?thesis
    by (simp add: spec_y_def y_value_def clamp_unit_def round_float_zero round_float_half)
qed

text \<open>
  C6, as stated, fails. For 20 samples and a viewport of width 1000 the scale
  \<open>1000 / 19\<close> is rounded down to a float, and 19 times that float rounds to the float
  just below 1000: the last point has x = 999, where the claim's \<open>floor(i * W / (N - 1))\<close>
  and \<open>floor(W)\<close> give 1000. The x coordinates are computed on Python numbers, so this
  holds whatever the format of the sample arithmetic.
\<close>

theorem C6_last_x_is_999:
  "generate_waveform_points Binary32 (replicate 20 (Fin 0)) 1000 500 = Inr [(0, 250), (52, 250), (105, 250), (157, 250), (210, 250), (263, 250), (315, 250), (368, 250), (421, 250), (473, 250), (526, 250), (578, 250), (631, 250), (684, 250), (736, 250), (789, 250), (842, 250), (894, 250), (947, 250), (999, 250)]
   \<and> generate_waveform_points Binary64 (replicate 20 (Fin 0)) 1000 500 = Inr [(0, 250), (52, 250), (105, 250), (157, 250), (210, 250), (263, 250), (315, 250), (368, 250), (421, 250), (473, 250), (526, 250), (578, 250), (631, 250), (684, 250), (736, 250), (789, 250), (842, 250), (894, 250), (947, 250), (999, 250)]
   \<and> \<lfloor>real 19 * real_of_int 1000 / real (20 - 1)\<rfloor> = 1000"
proof -
  have y: "spec_y fmt 500 (Fin 0) = 250" for fmt
  proof -
    have "(500::int) < 2 ^ precision fmt"
      by (cases fmt) simp_all
    then show ?thesis
      using spec_y_silence [of 500 fmt] by simp
  qed
  have u: "[0..<20] = [0, 1, 2, 3, 4, 5, 6, 7, 8, 9, 10, 11, 12, 13, 14, 15, 16, 17, 18, 19]"
    by (simp add: upt_rec)
  have s: "spec_x 1000 20 (Suc 0) = 52"
    using spec_x_1000_20(1) by simp
  have "generate_waveform_points Binary32 (replicate 20 (Fin 0)) 1000 500 = Inr [(0, 250), (52, 250), (105, 250), (157, 250), (210, 250), (263, 250), (315, 250), (368, 250), (421, 250), (473, 250), (526, 250), (578, 250), (631, 250), (684, 250), (736, 250), (789, 250), (842, 250), (894, 250), (947, 250), (999, 250)]"
    using u s generate_points_eq [of "replicate 20 (Fin 0)" 1000 500 Binary32]
    by (simp add: y first_x spec_x_1000_20 del: upt_Suc)
  moreover have "generate_waveform_points Binary64 (replicate 20 (Fin 0)) 1000 500 = Inr [(0, 250), (52, 250), (105, 250), (157, 250), (210, 250), (263, 250), (315, 250), (368, 250), (421, 250), (473, 250), (526, 250), (578, 250), (631, 250), (684, 250), (736, 250), (789, 250), (842, 250), (894, 250), (947, 250), (999, 250)]"
    using u s generate_points_eq [of "replicate 20 (Fin 0)" 1000 500 Binary64]
    by (simp add: y first_x spec_x_1000_20 del: upt_Suc)
  ultimately show ?thesis by simp
qed

text \<open>
  C6, amended. For every buffer of N > 1 samples (N at most 2^53) and every viewport
  with 0 \<le> W \<le> 2^51 and 0 \<le> H < 2^p, p the precision of the format in which the
  samples are computed with (24 bits for binary32, 53 for binary64), the projector
  returns N points without an error; point i is
  \<open>(floor(i * x_scale), floor(H/2 - clamp(a_i, -1, 1) * H/2))\<close> with \<open>x_scale = W / (N - 1)\<close>,
  every operation on x rounded to binary64 and every operation on y rounded to the
  format of the samples, as the program computes them (\<open>spec_x\<close>, \<open>spec_y\<close>); its x
  differs from the exact \<open>floor(i * W / (N - 1))\<close> by at most 1; the first point has
  x = 0; the last point has x = W or x = W - 1; and every y lies in [0, H].
\<close>

theorem C6_projector_shape:
  assumes "1 < length dc" and "length dc \<le> 2 ^ 53"
    and "0 \<le> W" and "W \<le> 2 ^ 51" and "0 \<le> H" and "H < 2 ^ precision fmt"
  shows "\<exists>pts. generate_waveform_points fmt dc W H = Inr pts
      \<and> length pts = length dc
      \<and> (\<forall>i<length dc. pts ! i = (spec_x W (length dc) i, spec_y fmt H (dc ! i)))
      \<and> (\<forall>i<length dc. \<bar>fst (pts ! i) - \<lfloor>real i * (real_of_int W / real (length dc - 1))\<rfloor>\<bar> \<le> 1)
      \<and> fst (pts ! 0) = 0
      \<and> (fst (pts ! (length dc - 1)) = W \<or> fst (pts ! (length dc - 1)) = W - 1)
      \<and> (\<forall>i<length dc. 0 \<le> snd (pts ! i) \<and> snd (pts ! i) \<le> H)"
proof -
  let ?N = "length dc"
  let ?pts = "map (\<lambda>i. (spec_x W ?N i, spec_y fmt H (dc ! i))) [0..<?N]"
  have n: "1 \<le> ?N - 1" "?N - 1 < 2 ^ 53"
    using assms(1,2) by linarith+
  have gen: "generate_waveform_points fmt dc W H = Inr ?pts"
    using assms by (rule generate_points_eq)
  have close: "\<bar>spec_x W ?N i - \<lfloor>real i * (real_of_int W / real (?N - 1))\<rfloor>\<bar> \<le> 1" if "i < ?N" for i
  proof -
    have "i \<le> ?N - 1" using that by simp
    then have "\<bar>x_value W ?N i - real i * (real_of_int W / real (?N - 1))\<bar> < 1"
      unfolding x_value_def using assms(3,4) n by (intro index_error)
    then show ?thesis
      unfolding spec_x_def by (rule floor_close)
  qed
  have last: "spec_x W ?N (?N - 1) = W \<or> spec_x W ?N (?N - 1) = W - 1"
    using assms(3,4,1,2) by (rule last_x)
  have y: "0 \<le> spec_y fmt H a \<and> spec_y fmt H a \<le> H" for a
    using spec_y_range [OF assms(5,6), of a] by simp
  have z: "0 < ?N"
    using assms(1) by linarith
  have "length ?pts = ?N"
    by simp
  moreover have "\<forall>i<?N. ?pts ! i = (spec_x W ?N i, spec_y fmt H (dc ! i))"
    by simp
  moreover have "\<forall>i<?N. \<bar>fst (?pts ! i) - \<lfloor>real i * (real_of_int W / real (?N - 1))\<rfloor>\<bar> \<le> 1"
    using close by simp
  moreover have "fst (?pts ! 0) = 0"
    using z by (simp add: first_x)
  moreover have "fst (?pts ! (?N - 1)) = W \<or> fst (?pts ! (?N - 1)) = W - 1"
    using last z by simp
  moreover have "\<forall>i<?N. 0 \<le> snd (?pts ! i) \<and> snd (?pts ! i) \<le> H"
    using y by simp
  ultimately show ?thesis
    using gen by blast
qed

theorem C6_projector_shape_witness:
  "\<exists>pts. generate_waveform_points Binary32 [Fin 1, Fin (- 1), Fin (1 / 2)] 1000 500 = Inr pts
      \<and> length pts = 3
      \<and> fst (pts ! 0) = 0
      \<and> (fst (pts ! 2) = 1000 \<or> fst (pts ! 2) = 999)
      \<and> 0 \<le> snd (pts ! 1) \<and> snd (pts ! 1) \<le> 500"
proof -
  let ?dc = "[Fin 1, Fin (- 1), Fin (1 / 2)]"
  have h: "1 < length ?dc" "length ?dc \<le> 2 ^ 53" "(0::int) \<le> 1000" "(1000::int) \<le> 2 ^ 51"
    "(0::int) \<le> 500" "(500::int) < 2 ^ precision Binary32"
    by simp_all
  obtain pts where g: "generate_waveform_points Binary32 ?dc 1000 500 = Inr pts"
    and l: "length pts = length ?dc"
    and f: "fst (pts ! 0) = 0"
    and e: "fst (pts ! (length ?dc - 1)) = 1000 \<or> fst (pts ! (length ?dc - 1)) = 1000 - 1"
    and y: "\<forall>i<length ?dc. 0 \<le> snd (pts ! i) \<and> snd (pts ! i) \<le> 500"
    using C6_projector_shape [OF h] by blast
  have "0 \<le> snd (pts ! 1) \<and> snd (pts ! 1) \<le> 500"
    using y by simp
  moreover have "length ?dc - 1 = 2" "length ?dc = 3"
    by simp_all
  ultimately show ?thesis
    using g l f e by (auto simp only:)
qed

text \<open>
  The sample 0.1 of a binary32 stream is 13421773 / 2^27. With height 500 its product
  with 250 rounds to 25 in binary32 and is exact in binary64, so y is 225 when the
  sample arithmetic is binary32 and 224 when it is binary64.
\<close>

lemma y_value_tenth:
  "y_value Binary32 500 (Fin (13421773 / 134217728)) = 225"
  "y_value Binary64 500 (Fin (13421773 / 134217728)) = 30198988750 / 134217728"
proof -
  have c: "clamp_unit (Fin (13421773 / 134217728)) = 13421773 / 134217728"
    by (simp add: clamp_unit_def)
  have p32: "round_float Binary32 (13421773 / 134217728 * (real_of_int 500 / 2)) = 25"
    by (subst round_binary32_eval [where e = 4]) (simp_all add: round_half_even_def)
  have "round_float Binary32 (real_of_int 225) = real_of_int 225"
    by (rule round_float_int) simp
  then show "y_value Binary32 500 (Fin (13421773 / 134217728)) = 225"
    unfolding y_value_def c p32 by simp
  have p64: "round_binary64 (13421773 / 134217728 * (real_of_int 500 / 2)) = 3355443250 / 134217728"
    by (subst round_binary64_eval [where e = 4]) (simp_all add: round_half_even_def)
  have "round_binary64 (real_of_int 500 / 2 - 3355443250 / 134217728) = 30198988750 / 134217728"
    by (subst round_binary64_eval [where e = 7]) (simp_all add: round_half_even_def)
  then show "y_value Binary64 500 (Fin (13421773 / 134217728)) = 30198988750 / 134217728"
    unfolding y_value_def c p64 by simp
qed

text \<open>
  C7. The empty buffer gives the empty sequence. A buffer of one sample gives two
  identical points, (0, y) twice with y the value of the y formula in the format of
  the sample arithmetic, for every width and every height below 2^p in magnitude (p
  the precision of that format). And whenever the buffer is not empty and the
  projector returns points, it returns at least two.
\<close>

theorem C7_degenerate_cases:
  "generate_waveform_points fmt [] W H = Inr []
   \<and> (\<bar>H\<bar> < 2 ^ precision fmt \<longrightarrow>
        generate_waveform_points fmt [a] W H
          = Inr [(0, truncate (y_value fmt H a)), (0, truncate (y_value fmt H a))])
   \<and> (dc \<noteq> [] \<and> generate_waveform_points fmt dc W H = Inr pts \<longrightarrow> 2 \<le> length pts)"
proof -
  have "generate_waveform_points fmt [] W H = Inr []"
    by (simp add: generate_waveform_points_def)
  moreover have "2 \<le> length pts" if "dc \<noteq> []" "generate_waveform_points fmt dc W H = Inr pts"
    using generate_length [OF that(2,1)] by simp
  ultimately show ?thesis
    using single_sample [of H fmt a W] by blast
qed

theorem C7_degenerate_cases_witness:
  "\<bar>500\<bar> < (2::int) ^ precision Binary32
   \<and> generate_waveform_points Binary32 [Fin (13421773 / 134217728)] 1000 500
        = Inr [(0, 225), (0, 225)]
   \<and> \<bar>500\<bar> < (2::int) ^ precision Binary64
   \<and> generate_waveform_points Binary64 [Fin (13421773 / 134217728)] 1000 500
        = Inr [(0, 224), (0, 224)]
   \<and> [Fin (13421773 / 134217728)] \<noteq> []
   \<and> 2 \<le> length [(0::int, 225::int), (0, 225)]"
proof -
  have t32: "truncate (y_value Binary32 500 (Fin (13421773 / 134217728))) = 225"
    unfolding y_value_tenth by (simp add: truncate_def)
  have t64: "truncate (y_value Binary64 500 (Fin (13421773 / 134217728))) = 224"
    unfolding y_value_tenth by (simp add: truncate_def)
  have "generate_waveform_points Binary32 [Fin (13421773 / 134217728)] 1000 500
      = Inr [(0, 225), (0, 225)]"
    using C7_degenerate_cases [of Binary32 1000 500 "Fin (13421773 / 134217728)"
        "[Fin (13421773 / 134217728)]" "[(0, 225), (0, 225)]"]
    by (simp add: t32)
  moreover have "generate_waveform_points Binary64 [Fin (13421773 / 134217728)] 1000 500
      = Inr [(0, 224), (0, 224)]"
    using C7_degenerate_cases [of Binary64 1000 500 "Fin (13421773 / 134217728)"
        "[Fin (13421773 / 134217728)]" "[(0, 224), (0, 224)]"]
    by (simp add: t64)
  ultimately show ?thesis by simp
qed

section \<open>The estimator on finite samples\<close>

text \<open>
  On samples that are numbers the loudness is what the rounded operations give, not
  the real number \<open>20 * log10(rms + \<epsilon>)\<close>: in the binary32 instance the square of the
  sample 10^30 overflows, and the loudness of that buffer is infinite.
\<close>

lemma square_overflow: "to_float Binary32 (10 ^ 30 * 10 ^ 30) = PosInf"
proof -
  have "round_float Binary32 (real_of_int 1 * pow2 128) = real_of_int 1 * pow2 128"
    by (rule round_float_exact) (simp_all add: fraction_bits_def)
  then have e: "round_float Binary32 (pow2 128) = pow2 128"
    by simp
  have "pow2 128 \<le> 10 ^ 30 * 10 ^ 30"
    using pow2_int [of 128] by simp
  then have "round_float Binary32 (pow2 128) \<le> round_float Binary32 (10 ^ 30 * 10 ^ 30)"
    by (rule round_mono)
  then have "pow2 (emax Binary32 + 1) \<le> round_float Binary32 (10 ^ 30 * 10 ^ 30)"
    unfolding e by simp
  then show ?thesis
    by (simp only: to_float_def Let_def if_True)
qed

lemma loudness_overflow:
  "calculate_rms_dbfs (rounded_kernels Binary32) [Fin (10 ^ 30)] = PosInf"
proof -
  have sq: "map (np_square (rounded_kernels Binary32)) [Fin (10 ^ 30)] = [PosInf]"
    by (simp only: list.map np_square.simps rounded_kernels_def numpy_kernels.select_convs
        square_overflow)
  have mean: "np_mean (rounded_kernels Binary32) [PosInf] = PosInf"
    by (simp add: np_mean_def rounded_kernels_def)
  show ?thesis
    unfolding calculate_rms_dbfs_def Let_def sq mean by (simp add: inf_times_def)
qed

end
